theory Spec2Isabelle
  imports Complex_Main "HOL-Library.AList" "HOL-Library.Log_Nat"
begin

section \<open>GitHub statistics service: cache and aggregation (src/main.ts)\<close>

text \<open>
  The service keeps one in-memory \<open>Map\<close> from string keys to \<open>{data, timestamp}\<close>
  entries, reads the wall clock with \<open>Date.now()\<close>, and talks to the GitHub API through
  \<open>octokit\<close>. In this development
  \<^item> the remote API and the clock are the fields of a record \<open>world\<close>: what each request
    answers (a value, or the error it throws) and what the n-th reading of the clock
    returns;
  \<^item> the mutable part is a record \<open>state\<close>: the cache, the number of clock readings
    made so far, the requests issued so far and the warnings printed so far;
  \<^item> an \<open>async\<close> function is a function from a state to a result and a new state; a
    thrown error is \<open>Inl\<close>, a returned value is \<open>Inr\<close>.
  Counts (stars, followers, bytes) are natural numbers; below \<open>2 ^ 53\<close> they are
  doubles and their sums are exact. Strings are byte strings and \<open>toLowerCase\<close> folds
  the ASCII letters only.
\<close>

subsection \<open>Data\<close>

datatype error = RequestError string | TypeError string

text \<open>\<open>interface UserStats\<close> (lines 13-26).\<close>

record UserStats =
  username :: string
  name :: string
  totalStars :: nat
  totalForks :: nat
  totalRepos :: nat
  publicRepos :: nat
  privateRepos :: nat
  followers :: nat
  following :: nat
  totalCommits :: nat
  totalIssues :: nat
  totalPRs :: nat

text \<open>
  A JavaScript number as far as the percentages need it: a finite double, given as
  the rational it denotes, the two infinities and NaN. The zero has no sign.
\<close>

datatype jsnum = Num rat | PosInf | NegInf | NaN

text \<open>
  \<open>interface LanguageStats\<close> (lines 28-30): an object used as a dictionary. Its
  properties are kept in the order \<open>Object.entries\<close> lists them in: array indices
  first, in ascending order, then the other names in insertion order. Language names
  are taken not to be names inherited from \<open>Object.prototype\<close>.
\<close>

type_synonym LanguageStats = "(string \<times> jsnum) list"

text \<open>The fields of the API answers that the program reads.\<close>

record auth_user =
  auth_login :: string

record user_profile =
  user_login :: string
  user_name :: "string option"
  user_public_repos :: nat
  user_followers :: nat
  user_following :: nat

record repo =
  repo_name :: string
  repo_owner_login :: string
  repo_private :: bool
  repo_fork :: bool
  stargazers_count :: "nat option"
  forks_count :: "nat option"

text \<open>
  The cache stores \<open>data: any\<close>. The program stores three kinds of object in it, under
  keys with three different prefixes.
\<close>

datatype cached =
  CUserStats UserStats
  | CLanguageStats LanguageStats
  | CAuthUser auth_user

record cache_entry =
  data :: cached
  timestamp :: int

datatype api_call =
  GetAuthenticated
  | GetByUsername string
  | ListForAuthenticatedUser
  | ListForUser string
  | SearchCommits string
  | SearchIssues string
  | ListLanguages string string

record world =
  dateNow :: "nat \<Rightarrow> int"
  getAuthenticated :: "error + auth_user"
  getByUsername :: "string \<Rightarrow> error + user_profile"
  listForAuthenticatedUser :: "error + repo list"
  listForUser :: "string \<Rightarrow> error + repo list"
  searchCommits :: "string \<Rightarrow> error + nat list"
  searchIssues :: "string \<Rightarrow> error + nat list"
  listLanguages :: "string \<Rightarrow> string \<Rightarrow> error + (string \<times> nat) list"

record state =
  cache :: "string \<rightharpoonup> cache_entry"
  ticks :: nat
  calls :: "api_call list"
  warnings :: "string list"

subsection \<open>The cache (lines 32-46)\<close>

definition CACHE_DURATION :: int where
  "CACHE_DURATION = 3600000"

text \<open>
  \<open>getFromCache\<close>: \<open>cached && Date.now() - cached.timestamp < CACHE_DURATION\<close>. The
  clock is read only when the key has an entry; the map is not written.
\<close>

definition getFromCache :: "world \<Rightarrow> string \<Rightarrow> state \<Rightarrow> cached option \<times> state" where
  "getFromCache w key s =
     (case cache s key of
        None \<Rightarrow> (None, s)
      | Some c \<Rightarrow>
          (let now = dateNow w (ticks s);
               s' = s\<lparr>ticks := Suc (ticks s)\<rparr>
           in if now - timestamp c < CACHE_DURATION then (Some (data c), s') else (None, s')))"

definition setCache :: "world \<Rightarrow> string \<Rightarrow> cached \<Rightarrow> state \<Rightarrow> state" where
  "setCache w key d s =
     s\<lparr>cache := (cache s)(key \<mapsto> \<lparr>data = d, timestamp = dateNow w (ticks s)\<rparr>),
       ticks := Suc (ticks s)\<rparr>"

subsection \<open>JavaScript operators used by the aggregation\<close>

text \<open>\<open>String.prototype.toLowerCase\<close>, on the ASCII letters.\<close>

definition lower_char :: "char \<Rightarrow> char" where
  "lower_char c =
     (let n = (of_char c :: nat) in if 65 \<le> n \<and> n \<le> 90 then char_of (n + 32) else c)"

definition toLowerCase :: "string \<Rightarrow> string" where
  "toLowerCase str = map lower_char str"

text \<open>
  \<open>v || d\<close> for \<open>v: string | null\<close>: \<open>null\<close> and the empty string are falsy.
\<close>

definition js_or :: "string option \<Rightarrow> string \<Rightarrow> string" where
  "js_or v d = (case v of None \<Rightarrow> d | Some str \<Rightarrow> if str = [] then d else str)"

text \<open>
  Rounding to binary64. A positive rational \<open>q\<close> with \<open>2 ^ e \<le> q < 2 ^ (e + 1)\<close>
  is rounded to the nearest multiple of \<open>2 ^ (e - 52)\<close>, the even one on a tie; below
  the normal range the spacing stays \<open>2 ^ (-1074)\<close>. \<open>ilog2\<close> computes \<open>e\<close>.
\<close>

definition pow2 :: "int \<Rightarrow> rat" where
  "pow2 k = (if 0 \<le> k then 2 ^ nat k else 1 / 2 ^ nat (- k))"

definition ilog2 :: "rat \<Rightarrow> int" where
  "ilog2 q =
     (if 1 \<le> q then int (floorlog 2 (nat \<lfloor>q\<rfloor>)) - 1
      else - int (floorlog 2 (nat \<lceil>1 / q\<rceil> - 1)))"

definition round_even :: "rat \<Rightarrow> int" where
  "round_even r =
     (let f = \<lfloor>r\<rfloor>; d = r - of_int f
      in if d < 1 / 2 then f else if 1 / 2 < d then f + 1 else if even f then f else f + 1)"

definition fl :: "rat \<Rightarrow> rat" where
  "fl q =
     (if q = 0 then 0
      else
        (let ulp = pow2 (max (ilog2 \<bar>q\<bar>) (- 1022) - 52)
         in sgn q * of_int (round_even (\<bar>q\<bar> / ulp)) * ulp))"

text \<open>The result of an operation whose exact value is \<open>q\<close>: rounded, or infinite.\<close>

definition js_round :: "rat \<Rightarrow> jsnum" where
  "js_round q =
     (let r = fl q
      in if 2 ^ 1024 \<le> r then PosInf else if r \<le> - (2 ^ 1024) then NegInf else Num r)"

text \<open>\<open>bytes / total\<close> for two non-negative integers: \<open>0 / 0\<close> is NaN.\<close>

definition js_div :: "nat \<Rightarrow> nat \<Rightarrow> jsnum" where
  "js_div a b =
     (if b = 0 then (if a = 0 then NaN else PosInf) else js_round (of_nat a / of_nat b))"

fun js_times100 :: "jsnum \<Rightarrow> jsnum" where
  "js_times100 (Num q) = js_round (q * 100)"
| "js_times100 PosInf = PosInf"
| "js_times100 NegInf = NegInf"
| "js_times100 NaN = NaN"

text \<open>
  \<open>parseFloat(x.toFixed(2))\<close>. \<open>toFixed(2)\<close> prints the integer \<open>n\<close> for which
  \<open>n / 100\<close> is nearest to the exact value of \<open>x\<close>, the larger \<open>n\<close> on a tie, after
  taking the sign off; \<open>parseFloat\<close> reads the decimal back as the nearest double.
  NaN and the infinities print their names, which \<open>parseFloat\<close> reads back.
\<close>

fun toFixed2 :: "jsnum \<Rightarrow> jsnum" where
  "toFixed2 (Num q) = js_round (sgn q * of_int \<lfloor>\<bar>q\<bar> * 100 + 1 / 2\<rfloor> / 100)"
| "toFixed2 PosInf = PosInf"
| "toFixed2 NegInf = NegInf"
| "toFixed2 NaN = NaN"

text \<open>
  \<open>b - a\<close> on numbers. The sort uses the sign of the difference only, and the
  rounded difference of two doubles has the sign of the exact one.
\<close>

fun js_sub :: "jsnum \<Rightarrow> jsnum \<Rightarrow> jsnum" where
  "js_sub (Num a) (Num b) = Num (a - b)"
| "js_sub NaN _ = NaN"
| "js_sub _ NaN = NaN"
| "js_sub PosInf PosInf = NaN"
| "js_sub NegInf NegInf = NaN"
| "js_sub PosInf _ = PosInf"
| "js_sub NegInf _ = NegInf"
| "js_sub (Num a) PosInf = NegInf"
| "js_sub (Num a) NegInf = PosInf"

text \<open>
  \<open>Array.prototype.sort\<close> with a comparator is stable; an element moves in front of
  another only when the comparator's value for the pair is negative (NaN counts as
  zero). Insertion from the right computes that order.
\<close>

fun js_negative :: "jsnum \<Rightarrow> bool" where
  "js_negative (Num q) = (q < 0)"
| "js_negative NegInf = True"
| "js_negative PosInf = False"
| "js_negative NaN = False"

fun sort_insert :: "('a \<Rightarrow> 'a \<Rightarrow> jsnum) \<Rightarrow> 'a \<Rightarrow> 'a list \<Rightarrow> 'a list" where
  "sort_insert cmp x [] = [x]"
| "sort_insert cmp x (y # ys) =
     (if js_negative (cmp y x) then y # sort_insert cmp x ys else x # y # ys)"

definition js_sort :: "('a \<Rightarrow> 'a \<Rightarrow> jsnum) \<Rightarrow> 'a list \<Rightarrow> 'a list" where
  "js_sort cmp xs = foldr (sort_insert cmp) xs []"

text \<open>
  Property assignment \<open>obj[k] = v\<close> on a dictionary object. An existing property
  keeps its place. A new array index (the canonical decimal of a number up to
  \<open>2 ^ 32 - 2\<close>) goes among the array indices, in ascending order; any other new name
  goes to the end.
\<close>

definition isDigit :: "char \<Rightarrow> bool" where
  "isDigit c = (48 \<le> (of_char c :: nat) \<and> (of_char c :: nat) \<le> 57)"

definition index_value :: "string \<Rightarrow> nat" where
  "index_value str = foldl (\<lambda>n c. 10 * n + (of_char c - 48)) 0 str"

definition isArrayIndex :: "string \<Rightarrow> bool" where
  "isArrayIndex str =
     (0 < length str \<and> list_all isDigit str
      \<and> (str = ''0'' \<or> 49 \<le> (of_char (hd str) :: nat))
      \<and> index_value str \<le> 4294967294)"

definition indexBefore :: "string \<Rightarrow> string \<times> 'v \<Rightarrow> bool" where
  "indexBefore k e = (isArrayIndex (fst e) \<and> index_value (fst e) < index_value k)"

definition obj_set :: "string \<Rightarrow> 'v \<Rightarrow> (string \<times> 'v) list \<Rightarrow> (string \<times> 'v) list" where
  "obj_set k v obj =
     (if k \<in> fst ` set obj then AList.update k v obj
      else if isArrayIndex k
      then takeWhile (indexBefore k) obj @ (k, v) # dropWhile (indexBefore k) obj
      else obj @ [(k, v)])"

text \<open>\<open>Object.fromEntries\<close>: the properties are set one after the other.\<close>

definition fromEntries :: "(string \<times> 'v) list \<Rightarrow> (string \<times> 'v) list" where
  "fromEntries es = foldl (\<lambda>obj (k, v). obj_set k v obj) [] es"

subsection \<open>Effects\<close>

definition request :: "api_call \<Rightarrow> state \<Rightarrow> state" where
  "request c s = s\<lparr>calls := calls s @ [c]\<rparr>"

definition warn :: "string \<Rightarrow> state \<Rightarrow> state" where
  "warn msg s = s\<lparr>warnings := warnings s @ [msg]\<rparr>"

subsection \<open>The identity check (lines 53-68, and again lines 151-166)\<close>

text \<open>
  Both aggregators start with the same statements. A value cached under \<open>auth-user\<close>
  that has no string \<open>login\<close> makes \<open>.login.toLowerCase()\<close> throw outside the
  \<open>try\<close>.
\<close>

definition checkAuthenticatedUser :: "world \<Rightarrow> string \<Rightarrow> state \<Rightarrow> (error + bool) \<times> state" where
  "checkAuthenticatedUser w uname s =
     (case getFromCache w ''auth-user'' s of
        (Some cachedAuthUser, s1) \<Rightarrow>
          (case cachedAuthUser of
             CAuthUser a \<Rightarrow> (Inr (toLowerCase (auth_login a) = toLowerCase uname), s1)
           | _ \<Rightarrow> (Inl (TypeError ''toLowerCase''), s1))
      | (None, s1) \<Rightarrow>
          (let s2 = request GetAuthenticated s1
           in case getAuthenticated w of
                Inr authUser \<Rightarrow>
                  (Inr (toLowerCase (auth_login authUser) = toLowerCase uname),
                   setCache w ''auth-user'' (CAuthUser authUser) s2)
              | Inl e \<Rightarrow> (Inr False, warn ''Could not get authenticated user:'' s2)))"

subsection \<open>The repository source (lines 73-88, and again lines 168-181)\<close>

definition fetchRepos ::
  "world \<Rightarrow> string \<Rightarrow> bool \<Rightarrow> bool \<Rightarrow> state \<Rightarrow> (error + repo list) \<times> state" where
  "fetchRepos w uname includePrivate isAuthenticatedUser s =
     (if includePrivate \<and> isAuthenticatedUser
      then (listForAuthenticatedUser w, request ListForAuthenticatedUser s)
      else (listForUser w uname, request (ListForUser uname) s))"

subsection \<open>User statistics (lines 48-144)\<close>

text \<open>Lines 96-106: the commit search and its \<open>catch\<close>.\<close>

definition fetchCommits :: "world \<Rightarrow> string \<Rightarrow> state \<Rightarrow> nat \<times> state" where
  "fetchCommits w uname s =
     (let s1 = request (SearchCommits (''author:'' @ uname)) s
      in case searchCommits w (''author:'' @ uname) of
           Inr commits \<Rightarrow> (length commits, s1)
         | Inl e \<Rightarrow> (0, warn ''Could not fetch commits:'' s1))"

text \<open>
  Lines 108-125: the two searches share one \<open>try\<close> block, so an error of the first
  leaves the block before the second search is made.
\<close>

definition fetchIssuesAndPRs :: "world \<Rightarrow> string \<Rightarrow> state \<Rightarrow> (nat \<times> nat) \<times> state" where
  "fetchIssuesAndPRs w uname s =
     (let s1 = request (SearchIssues (''author:'' @ uname @ '' type:issue'')) s
      in case searchIssues w (''author:'' @ uname @ '' type:issue'') of
           Inl e \<Rightarrow> ((0, 0), warn ''Could not fetch issues/PRs:'' s1)
         | Inr issues \<Rightarrow>
             (let s2 = request (SearchIssues (''author:'' @ uname @ '' type:pr'')) s1
              in case searchIssues w (''author:'' @ uname @ '' type:pr'') of
                   Inl e \<Rightarrow> ((length issues, 0), warn ''Could not fetch issues/PRs:'' s2)
                 | Inr prs \<Rightarrow> ((length issues, length prs), s2)))"

definition userStatsKey :: "string \<Rightarrow> bool \<Rightarrow> string" where
  "userStatsKey uname includePrivate =
     ''user-stats-'' @ uname @ ''-'' @ (if includePrivate then ''private'' else ''public'')"

text \<open>Lines 90-94 and 127-140: the record assembled from the answers.\<close>

definition buildStats ::
  "user_profile \<Rightarrow> repo list \<Rightarrow> bool \<Rightarrow> nat \<Rightarrow> nat \<Rightarrow> nat \<Rightarrow> UserStats" where
  "buildStats user repos includePrivate commits issues prs =
     (let stars = foldl (\<lambda>sum r. sum + (case stargazers_count r of None \<Rightarrow> 0 | Some n \<Rightarrow> n)) 0 repos;
          forks = foldl (\<lambda>sum r. sum + (case forks_count r of None \<Rightarrow> 0 | Some n \<Rightarrow> n)) 0 repos;
          pub = length (filter (\<lambda>r. \<not> repo_private r) repos);
          priv = length (filter (\<lambda>r. repo_private r) repos)
      in \<lparr>username = user_login user,
          name = js_or (user_name user) (user_login user),
          totalStars = stars,
          totalForks = forks,
          totalRepos = length repos,
          publicRepos = (if includePrivate then pub else user_public_repos user),
          privateRepos = (if includePrivate then priv else 0),
          followers = user_followers user,
          following = user_following user,
          totalCommits = commits,
          totalIssues = issues,
          totalPRs = prs\<rparr>)"

definition getUserStats :: "world \<Rightarrow> string \<Rightarrow> bool \<Rightarrow> state \<Rightarrow> (error + cached) \<times> state" where
  "getUserStats w uname includePrivate s =
     (case getFromCache w (userStatsKey uname includePrivate) s of
        (Some hit, s1) \<Rightarrow> (Inr hit, s1)
      | (None, s1) \<Rightarrow>
          (case checkAuthenticatedUser w uname s1 of
             (Inl e, s2) \<Rightarrow> (Inl e, s2)
           | (Inr isAuthenticatedUser, s2) \<Rightarrow>
               (let s3 = request (GetByUsername uname) s2
                in case getByUsername w uname of
                     Inl e \<Rightarrow> (Inl e, s3)
                   | Inr user \<Rightarrow>
                       (case fetchRepos w uname includePrivate isAuthenticatedUser s3 of
                          (Inl e, s4) \<Rightarrow> (Inl e, s4)
                        | (Inr repos, s4) \<Rightarrow>
                            (case fetchCommits w uname s4 of
                               (commits, s5) \<Rightarrow>
                                 (case fetchIssuesAndPRs w uname s5 of
                                    ((issues, prs), s6) \<Rightarrow>
                                      (let stats = CUserStats
                                             (buildStats user repos includePrivate commits issues prs)
                                       in (Inr stats,
                                           setCache w (userStatsKey uname includePrivate) stats s6))))))))"

subsection \<open>Language statistics (lines 146-216)\<close>

definition langStatsKey :: "string \<Rightarrow> bool \<Rightarrow> string" where
  "langStatsKey uname includePrivate =
     ''lang-stats-'' @ uname @ ''-'' @ (if includePrivate then ''private'' else ''public'')"

text \<open>
  Lines 194-196: \<open>languages[lang] = (languages[lang] || 0) + bytes\<close>.
\<close>

fun addLanguages :: "(string \<times> nat) list \<Rightarrow> (string \<times> nat) list \<Rightarrow> (string \<times> nat) list" where
  "addLanguages languages [] = languages"
| "addLanguages languages ((lang, bytes) # rest) =
     addLanguages
       (obj_set lang ((case map_of languages lang of None \<Rightarrow> 0 | Some n \<Rightarrow> n) + bytes) languages)
       rest"

text \<open>Lines 185-200: forks are skipped; a failed fetch is logged and skipped.\<close>

fun collectLanguages ::
  "world \<Rightarrow> repo list \<Rightarrow> (string \<times> nat) list \<Rightarrow> state \<Rightarrow> (string \<times> nat) list \<times> state" where
  "collectLanguages w [] languages s = (languages, s)"
| "collectLanguages w (r # rest) languages s =
     (if repo_fork r then collectLanguages w rest languages s
      else
        (let s1 = request (ListLanguages (repo_owner_login r) (repo_name r)) s
         in case listLanguages w (repo_owner_login r) (repo_name r) of
              Inr repoLanguages \<Rightarrow>
                collectLanguages w rest (addLanguages languages repoLanguages) s1
            | Inl e \<Rightarrow>
                collectLanguages w rest languages
                  (warn (''Could not fetch languages for '' @ repo_name r @ '':'') s1)))"

text \<open>Lines 202-207: the total and the percentage of each language.\<close>

definition totalBytes :: "(string \<times> nat) list \<Rightarrow> nat" where
  "totalBytes languages = foldl (\<lambda>sum bytes. sum + bytes) 0 (map snd languages)"

definition percentage :: "nat \<Rightarrow> nat \<Rightarrow> jsnum" where
  "percentage bytes tot = toFixed2 (js_times100 (js_div bytes tot))"

fun toPercentages :: "nat \<Rightarrow> (string \<times> nat) list \<Rightarrow> LanguageStats \<Rightarrow> LanguageStats" where
  "toPercentages tot [] percentages = percentages"
| "toPercentages tot ((lang, bytes) # rest) percentages =
     toPercentages tot rest (obj_set lang (percentage bytes tot) percentages)"

text \<open>Lines 209-212: \<open>sort(([, a], [, b]) => b - a)\<close>, then back to an object.\<close>

definition compareFn :: "string \<times> jsnum \<Rightarrow> string \<times> jsnum \<Rightarrow> jsnum" where
  "compareFn x y = js_sub (snd y) (snd x)"

definition languagePercentages :: "(string \<times> nat) list \<Rightarrow> LanguageStats" where
  "languagePercentages languages =
     (let tot = totalBytes languages;
          percentages = toPercentages tot languages []
      in fromEntries (js_sort compareFn percentages))"

definition getLanguageStats :: "world \<Rightarrow> string \<Rightarrow> bool \<Rightarrow> state \<Rightarrow> (error + cached) \<times> state" where
  "getLanguageStats w uname includePrivate s =
     (case getFromCache w (langStatsKey uname includePrivate) s of
        (Some hit, s1) \<Rightarrow> (Inr hit, s1)
      | (None, s1) \<Rightarrow>
          (case checkAuthenticatedUser w uname s1 of
             (Inl e, s2) \<Rightarrow> (Inl e, s2)
           | (Inr isAuthenticatedUser, s2) \<Rightarrow>
               (case fetchRepos w uname includePrivate isAuthenticatedUser s2 of
                  (Inl e, s3) \<Rightarrow> (Inl e, s3)
                | (Inr repos, s3) \<Rightarrow>
                    (case collectLanguages w repos [] s3 of
                       (languages, s4) \<Rightarrow>
                         (let sorted = CLanguageStats (languagePercentages languages)
                          in (Inr sorted,
                              setCache w (langStatsKey uname includePrivate) sorted s4))))))"

subsection \<open>The request handler (lines 352-418)\<close>

text \<open>
  A request is its method, its path and its decoded query parameters in order;
  \<open>searchParams.get\<close> returns the first value of a name, or \<open>null\<close>. The renderers
  (lines 218-350) and \<open>JSON.stringify\<close> are not unfolded: a body names the renderer
  and the value it was applied to.
\<close>

record http_request =
  req_method :: string
  req_pathname :: string
  req_searchParams :: "(string \<times> string) list"

datatype body =
  NoBody
  | StatsSVG cached
  | LanguagesSVG cached
  | StatsJSON cached
  | LanguagesJSON cached
  | ErrorJSON string

record http_response =
  resp_status :: nat
  resp_headers :: "(string \<times> string) list"
  resp_body :: body

definition searchParams_get :: "(string \<times> string) list \<Rightarrow> string \<Rightarrow> string option" where
  "searchParams_get params k = map_of params k"

definition requestUsername :: "http_request \<Rightarrow> string" where
  "requestUsername req = js_or (searchParams_get (req_searchParams req) ''username'') ''elyor04''"

definition requestIncludePrivate :: "http_request \<Rightarrow> bool" where
  "requestIncludePrivate req = (searchParams_get (req_searchParams req) ''private'' = Some ''true'')"

definition corsHeaders :: "(string \<times> string) list" where
  "corsHeaders =
     [(''Access-Control-Allow-Origin'', ''*''),
      (''Access-Control-Allow-Methods'', ''GET, OPTIONS''),
      (''Access-Control-Allow-Headers'', ''Content-Type'')]"

definition error_message :: "error \<Rightarrow> string" where
  "error_message e = (case e of RequestError m \<Rightarrow> m | TypeError m \<Rightarrow> m)"

definition respond ::
  "string \<Rightarrow> (cached \<Rightarrow> body) \<Rightarrow> (error + cached) \<times> state \<Rightarrow> http_response \<times> state" where
  "respond contentType render r =
     (case r of
        (Inr v, s') \<Rightarrow>
          (\<lparr>resp_status = 200,
            resp_headers =
              AList.update ''Cache-Control'' ''public, max-age=3600''
                (AList.update ''Content-Type'' contentType corsHeaders),
            resp_body = render v\<rparr>, s')
      | (Inl e, s') \<Rightarrow>
          (\<lparr>resp_status = 500,
            resp_headers = AList.update ''Content-Type'' ''application/json'' corsHeaders,
            resp_body = ErrorJSON (error_message e)\<rparr>, s'))"

definition handler :: "world \<Rightarrow> http_request \<Rightarrow> state \<Rightarrow> http_response \<times> state" where
  "handler w req s =
     (let uname = requestUsername req;
          includePrivate = requestIncludePrivate req
      in if req_method req = ''OPTIONS''
         then (\<lparr>resp_status = 200, resp_headers = corsHeaders, resp_body = NoBody\<rparr>, s)
         else if req_pathname req = ''/stats''
         then respond ''image/svg+xml'' StatsSVG (getUserStats w uname includePrivate s)
         else if req_pathname req = ''/languages''
         then respond ''image/svg+xml'' LanguagesSVG (getLanguageStats w uname includePrivate s)
         else if req_pathname req = ''/api/stats''
         then respond ''application/json'' StatsJSON (getUserStats w uname includePrivate s)
         else if req_pathname req = ''/api/languages''
         then respond ''application/json'' LanguagesJSON (getLanguageStats w uname includePrivate s)
         else (\<lparr>resp_status = 404,
                 resp_headers = AList.update ''Content-Type'' ''application/json'' corsHeaders,
                 resp_body = ErrorJSON ''Not found''\<rparr>, s))"

subsection \<open>Reading a run\<close>

text \<open>The requests a run has issued: what it appended to the log of the state.\<close>

definition newCalls :: "state \<Rightarrow> state \<Rightarrow> api_call list" where
  "newCalls s s' = drop (length (calls s)) (calls s')"

text \<open>A result with its commit count replaced, to compare two runs field by field.\<close>

definition withTotalCommits :: "nat \<Rightarrow> cached \<Rightarrow> cached" where
  "withTotalCommits n c =
     (case c of CUserStats st \<Rightarrow> CUserStats (st\<lparr>totalCommits := n\<rparr>) | _ \<Rightarrow> c)"




subsection \<open>A sample account\<close>

definition emptyState :: state where
  "emptyState = \<lparr>cache = Map.empty, ticks = 0, calls = [], warnings = []\<rparr>"

definition sampleProfile :: user_profile where
  "sampleProfile =
     \<lparr>user_login = ''octocat'', user_name = Some ''The Octocat'',
      user_public_repos = 8, user_followers = 3, user_following = 4\<rparr>"

definition sampleRepos :: "repo list" where
  "sampleRepos =
     [\<lparr>repo_name = ''hello'', repo_owner_login = ''octocat'', repo_private = False,
       repo_fork = False, stargazers_count = Some 5, forks_count = Some 1\<rparr>,
      \<lparr>repo_name = ''spoon'', repo_owner_login = ''octocat'', repo_private = False,
       repo_fork = True, stargazers_count = Some 10, forks_count = None\<rparr>]"

definition secretRepo :: repo where
  "secretRepo =
     \<lparr>repo_name = ''vault'', repo_owner_login = ''octocat'', repo_private = True,
      repo_fork = False, stargazers_count = Some 0, forks_count = Some 0\<rparr>"

text \<open>
  The token belongs to \<open>Octocat\<close>; every request succeeds; the clock advances one
  second per reading.
\<close>

definition sampleWorld :: world where
  "sampleWorld =
     \<lparr>dateNow = (\<lambda>n. 1000 * int n),
      getAuthenticated = Inr \<lparr>auth_login = ''Octocat''\<rparr>,
      getByUsername = (\<lambda>u. Inr sampleProfile),
      listForAuthenticatedUser = Inr (sampleRepos @ [secretRepo]),
      listForUser = (\<lambda>u. Inr sampleRepos),
      searchCommits = (\<lambda>q. Inr [1, 2, 3]),
      searchIssues = (\<lambda>q. if q = ''author:octocat type:issue'' then Inr [1] else Inr [1, 2]),
      listLanguages = (\<lambda>owner rname. Inr [(''A'', 300), (''B'', 700)])\<rparr>"

text \<open>The same account when the issue search fails (the PR search would answer).\<close>

definition issuesDownWorld :: world where
  "issuesDownWorld =
     sampleWorld\<lparr>searchIssues :=
       (\<lambda>q. if q = ''author:octocat type:issue''
            then Inl (RequestError ''Validation Failed'') else Inr [1, 2])\<rparr>"

text \<open>The same account when the commit search fails.\<close>

definition commitsDownWorld :: world where
  "commitsDownWorld = sampleWorld\<lparr>searchCommits := (\<lambda>q. Inl (RequestError ''Validation Failed''))\<rparr>"

text \<open>The same account seen with the token of another user.\<close>

definition strangerWorld :: world where
  "strangerWorld = sampleWorld\<lparr>getAuthenticated := Inr \<lparr>auth_login = ''hubot''\<rparr>\<rparr>"

text \<open>The same account when every repository reports languages of zero bytes.\<close>

definition zeroBytesWorld :: world where
  "zeroBytesWorld = sampleWorld\<lparr>listLanguages := (\<lambda>owner rname. Inr [(''A'', 0)])\<rparr>"

text \<open>A request with an empty username and an upper-case flag.\<close>

definition sampleRequest :: http_request where
  "sampleRequest =
     \<lparr>req_method = ''GET'', req_pathname = ''/api/stats'',
      req_searchParams = [(''username'', ''''), (''private'', ''TRUE'')]\<rparr>"

text \<open>The same account when every language request fails.\<close>

definition languagesDownWorld :: world where
  "languagesDownWorld =
     sampleWorld\<lparr>listLanguages := (\<lambda>owner rname. Inl (RequestError ''Not Found''))\<rparr>"


section \<open>Properties\<close>

subsection \<open>Rounding to binary64\<close>

lemma pow2_powi: "pow2 k = 2 powi k"
  by (simp add: pow2_def power_int_def inverse_eq_divide power_one_over)

lemma pow2_pos [simp]: "0 < pow2 k"
  by (simp add: pow2_def)


lemma pow2_mono: "j \<le> k \<Longrightarrow> pow2 j \<le> pow2 k"
  by (simp add: pow2_powi power_int_increasing)

lemma pow2_strict_mono: "j < k \<Longrightarrow> pow2 j < pow2 k"
  by (simp add: pow2_powi power_int_strict_increasing)

lemma pow2_nat: "pow2 (int n) = 2 ^ n"
  by (simp add: pow2_def)

lemma pow2_minus_nat: "pow2 (- int n) = 1 / 2 ^ n"
  by (simp add: pow2_powi power_int_minus inverse_eq_divide)

lemma pow2_pred_nat: "0 < n \<Longrightarrow> pow2 (int n - 1) = 2 ^ (n - 1)"
proof -
  assume "0 < n"
  then have "int n - 1 = int (n - 1)" by (simp add: of_nat_diff)
  then show ?thesis by (simp only: pow2_nat)
qed

lemma rat_power2_le_nat: "2 ^ j \<le> (m :: nat) \<Longrightarrow> (2 :: rat) ^ j \<le> of_nat m"
  by (metis of_nat_le_iff of_nat_numeral of_nat_power)

lemma rat_nat_le_power2: "(m :: nat) \<le> 2 ^ j \<Longrightarrow> (of_nat m :: rat) \<le> 2 ^ j"
  by (metis of_nat_le_iff of_nat_numeral of_nat_power)


lemma ilog2_ge1:
  assumes "1 \<le> q"
  shows "pow2 (ilog2 q) \<le> q" and "q < pow2 (ilog2 q + 1)"
proof -
  define m where "m = nat \<lfloor>q\<rfloor>"
  have fl1: "1 \<le> \<lfloor>q\<rfloor>" using assms by (simp add: le_floor_iff)
  then have mpos: "0 < m" by (simp add: m_def)
  have "of_int \<lfloor>q\<rfloor> \<le> q" by (rule of_int_floor_le)
  moreover have mq: "(of_nat m :: rat) = of_int \<lfloor>q\<rfloor>" using fl1 by (simp add: m_def)
  ultimately have lo: "of_nat m \<le> q" by simp
  have "q < of_int \<lfloor>q\<rfloor> + 1" using floor_correct [of q] by simp
  then have hi: "q < of_nat m + 1" using mq by simp
  define L where "L = floorlog 2 m"
  have b: "2 ^ (L - 1) \<le> m" "m < 2 ^ L"
    using floorlog_bounds [of m 2] mpos by (simp_all add: L_def)
  have Lpos: "0 < L"
  proof (rule ccontr)
    assume "\<not> 0 < L"
    then have "m < 1" using b(2) by simp
    then show False using mpos by simp
  qed
  have e: "ilog2 q = int L - 1"
    using assms by (simp add: ilog2_def m_def L_def)
  have "pow2 (ilog2 q) = 2 ^ (L - 1)" unfolding e using Lpos by (rule pow2_pred_nat)
  also have "\<dots> \<le> of_nat m" using b(1) by (rule rat_power2_le_nat)
  also have "\<dots> \<le> q" by (rule lo)
  finally show "pow2 (ilog2 q) \<le> q" .
  have "m + 1 \<le> 2 ^ L" using b(2) by simp
  then have "(of_nat (m + 1) :: rat) \<le> 2 ^ L" by (rule rat_nat_le_power2)
  moreover have "(of_nat (m + 1) :: rat) = of_nat m + 1" by simp
  ultimately have "q < 2 ^ L" using hi by linarith
  moreover have "pow2 (ilog2 q + 1) = 2 ^ L" unfolding e using pow2_nat [of L] by simp
  ultimately show "q < pow2 (ilog2 q + 1)" by simp
qed

lemma ilog2_lt1:
  assumes "0 < q" "q < 1"
  shows "pow2 (ilog2 q) \<le> q" and "q < pow2 (ilog2 q + 1)"
proof -
  define c where "c = \<lceil>1 / q\<rceil>"
  define m where "m = nat c"
  have r: "1 < 1 / q" using assms by simp
  have cr: "1 / q \<le> of_int c" unfolding c_def by (rule le_of_int_ceiling)
  have rc: "of_int c - 1 < 1 / q" unfolding c_def using ceiling_correct [of "1 / q"] by simp
  have "(1 :: rat) < of_int c" using r cr by linarith
  then have c2: "2 \<le> c" by simp
  then have m2: "2 \<le> m" by (simp add: m_def)
  have mc: "(of_nat m :: rat) = of_int c" using c2 by (simp add: m_def)
  define k where "k = floorlog 2 (m - 1)"
  have b: "2 ^ (k - 1) \<le> m - 1" "m - 1 < 2 ^ k"
    using floorlog_bounds [of "m - 1" 2] m2 by (simp_all add: k_def)
  have kpos: "0 < k"
  proof (rule ccontr)
    assume "\<not> 0 < k"
    then have "m - 1 < 1" using b(2) by simp
    then show False using m2 by simp
  qed
  have e: "ilog2 q = - int k"
    using assms by (simp add: ilog2_def c_def m_def k_def)
  have "m \<le> 2 ^ k" using b(2) by simp
  then have "(of_nat m :: rat) \<le> 2 ^ k" by (rule rat_nat_le_power2)
  then have "1 / q \<le> 2 ^ k" using cr mc by linarith
  then have "1 / 2 ^ k \<le> q" using assms(1) by (simp add: field_simps)
  then show "pow2 (ilog2 q) \<le> q" unfolding e by (simp only: pow2_minus_nat)
  have "(2 :: rat) ^ (k - 1) \<le> of_nat (m - 1)" using b(1) by (rule rat_power2_le_nat)
  moreover have "(of_nat (m - 1) :: rat) = of_nat m - 1" using m2 by (simp add: of_nat_diff)
  ultimately have "(2 :: rat) ^ (k - 1) < 1 / q" using rc mc by linarith
  then have lt: "q < 1 / 2 ^ (k - 1)" using assms(1) by (simp add: field_simps)
  have "- int k + 1 = - int (k - 1)" using kpos by (simp add: of_nat_diff)
  then have "pow2 (- int k + 1) = 1 / 2 ^ (k - 1)" by (simp only: pow2_minus_nat)
  then show "q < pow2 (ilog2 q + 1)" unfolding e using lt by simp
qed

lemma ilog2_bounds:
  assumes "0 < q"
  shows "pow2 (ilog2 q) \<le> q" and "q < pow2 (ilog2 q + 1)"
  using assms ilog2_ge1 [of q] ilog2_lt1 [of q] by (cases "1 \<le> q"; simp)+

lemma ilog2_unique:
  assumes "0 < q" "pow2 e \<le> q" "q < pow2 (e + 1)"
  shows "ilog2 q = e"
proof (rule ccontr)
  assume ne: "ilog2 q \<noteq> e"
  show False
  proof (cases "ilog2 q < e")
    case True
    then have "pow2 (ilog2 q + 1) \<le> pow2 e" by (intro pow2_mono) simp
    then show False using ilog2_bounds(2) [OF assms(1)] assms(2) by simp
  next
    case False
    then have "pow2 (e + 1) \<le> pow2 (ilog2 q)" using ne by (intro pow2_mono) simp
    then show False using ilog2_bounds(1) [OF assms(1)] assms(3) by simp
  qed
qed


lemma round_evenI: "\<bar>of_int m - r\<bar> < 1 / 2 \<Longrightarrow> round_even r = m"
proof -
  assume a: "\<bar>of_int m - r\<bar> < 1 / 2"
  have f: "of_int \<lfloor>r\<rfloor> \<le> r" "r < of_int \<lfloor>r\<rfloor> + 1"
    using floor_correct [of r] by simp_all
  have "(of_int m :: rat) - of_int \<lfloor>r\<rfloor> < 3 / 2" "- 1 / 2 - 1 < (of_int m :: rat) - of_int \<lfloor>r\<rfloor>"
    using a f by linarith+
  then have "(of_int (m - \<lfloor>r\<rfloor>) :: rat) < 3 / 2" "- 3 / 2 < (of_int (m - \<lfloor>r\<rfloor>) :: rat)"
    by simp_all
  then have "m - \<lfloor>r\<rfloor> < 2" "- 2 < m - \<lfloor>r\<rfloor>"
    by linarith+
  then consider "m = \<lfloor>r\<rfloor>" | "m = \<lfloor>r\<rfloor> + 1" | "m = \<lfloor>r\<rfloor> - 1" by linarith
  then show ?thesis
  proof cases
    case 1
    then have "(of_int m :: rat) = of_int \<lfloor>r\<rfloor>" by simp
    then have "r - of_int \<lfloor>r\<rfloor> < 1 / 2" using a by linarith
    then show ?thesis using 1 by (simp add: round_even_def Let_def)
  next
    case 2
    then have "(of_int m :: rat) = of_int \<lfloor>r\<rfloor> + 1" by simp
    then have "1 / 2 < r - of_int \<lfloor>r\<rfloor>" using a by linarith
    then show ?thesis using 2 by (simp add: round_even_def Let_def)
  next
    case 3
    then have "(of_int m :: rat) = of_int \<lfloor>r\<rfloor> - 1" by simp
    then have False using a f by linarith
    then show ?thesis ..
  qed
qed

lemma fl_pos:
  "0 < q \<Longrightarrow>
   fl q = of_int (round_even (q / pow2 (max (ilog2 q) (- 1022) - 52)))
            * pow2 (max (ilog2 q) (- 1022) - 52)"
  by (simp add: fl_def Let_def)



lemma fl_eqI:
  assumes "0 < q" "pow2 e \<le> q" "q < pow2 (e + 1)" "- 1022 \<le> e"
    and "\<bar>of_int m - q / pow2 (e - 52)\<bar> < 1 / 2"
  shows "fl q = of_int m * pow2 (e - 52)"
proof -
  have "ilog2 q = e" using assms(1-3) by (rule ilog2_unique)
  then have "max (ilog2 q) (- 1022) = e" using assms(4) by simp
  then have "fl q = of_int (round_even (q / pow2 (e - 52))) * pow2 (e - 52)"
    using fl_pos [OF assms(1)] by simp
  moreover have "round_even (q / pow2 (e - 52)) = m" using assms(5) by (rule round_evenI)
  ultimately show ?thesis by simp
qed

lemma js_round_NumI: "fl q = r \<Longrightarrow> \<bar>r\<bar> \<le> 2 ^ 10 \<Longrightarrow> js_round q = Num r"
proof -
  assume r: "fl q = r" and b: "\<bar>r\<bar> \<le> 2 ^ 10"
  have "(2 :: rat) ^ 10 < 2 ^ 1024" by (rule power_strict_increasing) simp_all
  then have "r < 2 ^ 1024" "- (2 ^ 1024) < r" using b by linarith+
  then show ?thesis using r by (simp add: js_round_def Let_def)
qed


lemma js_round_zero [simp]: "js_round 0 = Num 0"
  by (simp add: js_round_def fl_def)




text \<open>The percentages of the sample byte counts, step by step.\<close>

lemma fl_3000_hundredths: "fl (30) = 30"
  using fl_eqI [of "30" "4" 8444249301319680] by (simp add: pow2_def)

lemma percentage_300_1000: "percentage 300 1000 = Num (30)"
proof -
  have y: "fl (3 / 10) = 5404319552844595 / 18014398509481984"
    using fl_eqI [of "3 / 10" "- 2" 5404319552844595] by (simp add: pow2_def)
  have d: "js_div 300 1000 = Num (5404319552844595 / 18014398509481984)"
    using js_round_NumI [OF y] by (simp add: js_div_def)
  have x: "fl (135107988821114875 / 4503599627370496) = 30"
    using fl_eqI [of "135107988821114875 / 4503599627370496" "4" 8444249301319680] by (simp add: pow2_def)
  have m: "js_times100 (Num (5404319552844595 / 18014398509481984)) = Num (30)"
    using js_round_NumI [OF x] by simp
  have n: "\<lfloor>(30) * 100 + 1 / 2 :: rat\<rfloor> = 3000"
    by (rule floor_unique) simp_all
  have f: "toFixed2 (Num (30)) = Num (30)"
    using js_round_NumI [OF fl_3000_hundredths] n by simp
  show ?thesis by (simp only: percentage_def d m f)
qed

lemma fl_7000_hundredths: "fl (70) = 70"
  using fl_eqI [of "70" "6" 4925812092436480] by (simp add: pow2_def)

lemma percentage_700_1000: "percentage 700 1000 = Num (70)"
proof -
  have y: "fl (7 / 10) = 3152519739159347 / 4503599627370496"
    using fl_eqI [of "7 / 10" "- 1" 6305039478318694] by (simp add: pow2_def)
  have d: "js_div 700 1000 = Num (3152519739159347 / 4503599627370496)"
    using js_round_NumI [OF y] by (simp add: js_div_def)
  have x: "fl (78812993478983675 / 1125899906842624) = 70"
    using fl_eqI [of "78812993478983675 / 1125899906842624" "6" 4925812092436480] by (simp add: pow2_def)
  have m: "js_times100 (Num (3152519739159347 / 4503599627370496)) = Num (70)"
    using js_round_NumI [OF x] by simp
  have n: "\<lfloor>(70) * 100 + 1 / 2 :: rat\<rfloor> = 7000"
    by (rule floor_unique) simp_all
  have f: "toFixed2 (Num (70)) = Num (70)"
    using js_round_NumI [OF fl_7000_hundredths] n by simp
  show ?thesis by (simp only: percentage_def d m f)
qed





subsection \<open>Evaluating a run on the sample account\<close>

text \<open>The definitions that evaluate a run on the sample account.\<close>

lemmas world_defs = sampleWorld_def issuesDownWorld_def commitsDownWorld_def strangerWorld_def
  zeroBytesWorld_def languagesDownWorld_def sampleProfile_def sampleRepos_def secretRepo_def
  emptyState_def

lemma toLowerCase_Octocat: "toLowerCase ''Octocat'' = ''octocat''"
  by code_simp

lemma toLowerCase_octocat: "toLowerCase ''octocat'' = ''octocat''"
  by (simp add: toLowerCase_def lower_char_def)

lemma toLowerCase_hubot: "toLowerCase ''hubot'' = ''hubot''"
  by (simp add: toLowerCase_def lower_char_def)

lemmas run_defs = getUserStats_def getFromCache_def setCache_def userStatsKey_def
  checkAuthenticatedUser_def request_def warn_def fetchRepos_def fetchCommits_def
  fetchIssuesAndPRs_def buildStats_def js_or_def Let_def newCalls_def
  toLowerCase_Octocat toLowerCase_octocat toLowerCase_hubot

lemma percentage_0_0: "percentage 0 0 = NaN"
  by (simp add: percentage_def js_div_def)

lemma isArrayIndex_letter [simp]: "\<not> isArrayIndex ''A''" "\<not> isArrayIndex ''B''"
  by (simp_all add: isArrayIndex_def isDigit_def)

lemma isArrayIndex_1 [simp]: "isArrayIndex ''1''"
  by (simp add: isArrayIndex_def isDigit_def index_value_def)

lemmas lang_defs = getLanguageStats_def langStatsKey_def languagePercentages_def totalBytes_def
  js_sort_def compareFn_def fromEntries_def obj_set_def indexBefore_def
  percentage_0_0 percentage_300_1000 percentage_700_1000

lemma sample_languageStats:
  "fst (getLanguageStats sampleWorld ''octocat'' False emptyState) =
     Inr (CLanguageStats [(''B'', Num 70), (''A'', Num 30)])"
  by (simp add: world_defs run_defs lang_defs)

subsection \<open>The cache\<close>

text \<open>
  Claim C4. For every key \<open>k\<close>, \<open>getFromCache\<close> answers absent exactly when the map
  has no entry for \<open>k\<close> or the time elapsed since the entry was written is at least
  the TTL of 3600 seconds (3600000 ms): the boundary \<open>elapsed = TTL\<close> is absent. The
  map itself is left as it was, so an expired entry stays in it.
\<close>

theorem getFromCache_absent_iff:
  "(fst (getFromCache w k s) = None) =
     (cache s k = None \<or>
      (\<exists>c. cache s k = Some c \<and> CACHE_DURATION \<le> dateNow w (ticks s) - timestamp c))
   \<and> cache (snd (getFromCache w k s)) = cache s
   \<and> CACHE_DURATION = 3600 * 1000"
  by (auto simp: getFromCache_def CACHE_DURATION_def Let_def split: option.splits)

text \<open>
  Claim C8. \<open>setCache k v\<close> followed at once by \<open>getFromCache k\<close> returns \<open>v\<close>
  when the two clock readings are less than the TTL apart.
\<close>

theorem setCache_then_getFromCache:
  "dateNow w (Suc (ticks s)) - dateNow w (ticks s) < CACHE_DURATION \<Longrightarrow>
   fst (getFromCache w k (setCache w k v s)) = Some v"
  by (simp add: getFromCache_def setCache_def Let_def)

theorem setCache_then_getFromCache_witness:
  "dateNow sampleWorld (Suc (ticks emptyState)) - dateNow sampleWorld (ticks emptyState)
     < CACHE_DURATION
   \<and> fst (getFromCache sampleWorld ''auth-user''
            (setCache sampleWorld ''auth-user'' (CAuthUser \<lparr>auth_login = ''Octocat''\<rparr>) emptyState))
     = Some (CAuthUser \<lparr>auth_login = ''Octocat''\<rparr>)"
proof -
  have h: "dateNow sampleWorld (Suc (ticks emptyState)) - dateNow sampleWorld (ticks emptyState)
             < CACHE_DURATION"
    by (simp add: sampleWorld_def emptyState_def CACHE_DURATION_def)
  show ?thesis
    using h setCache_then_getFromCache [OF h] by simp
qed

subsection \<open>The requests a run issues\<close>

lemma getFromCache_calls [simp]: "calls (snd (getFromCache w k s)) = calls s"
  by (simp add: getFromCache_def Let_def split: option.splits)

lemma setCache_calls [simp]: "calls (setCache w k v s) = calls s"
  by (simp add: setCache_def)

lemma request_calls [simp]: "calls (request c s) = calls s @ [c]"
  by (simp add: request_def)

lemma warn_calls [simp]: "calls (warn m s) = calls s"
  by (simp add: warn_def)

lemma newCalls_append [simp]: "calls s' = calls s @ cs \<Longrightarrow> newCalls s s' = cs"
  by (simp add: newCalls_def)

lemma checkAuthenticatedUser_calls:
  "\<exists>cs. calls (snd (checkAuthenticatedUser w u s)) = calls s @ cs \<and> set cs \<subseteq> {GetAuthenticated}"
proof (cases "getFromCache w ''auth-user'' s")
  case (Pair r s1)
  then have c1: "calls s1 = calls s"
    using getFromCache_calls [of w "''auth-user''" s] by simp
  show ?thesis
    using Pair c1
    by (auto simp: checkAuthenticatedUser_def Let_def split: option.splits cached.splits sum.splits)
qed

lemma fetchRepos_calls:
  "calls (snd (fetchRepos w u ip b s)) =
     calls s @ [if ip \<and> b then ListForAuthenticatedUser else ListForUser u]"
  by (simp add: fetchRepos_def)

lemma fetchCommits_calls:
  "calls (snd (fetchCommits w u s)) = calls s @ [SearchCommits (''author:'' @ u)]"
  by (simp add: fetchCommits_def Let_def split: sum.splits)

lemma fetchIssuesAndPRs_calls:
  "calls (snd (fetchIssuesAndPRs w u s)) =
     calls s @ SearchIssues (''author:'' @ u @ '' type:issue'') #
       (case searchIssues w (''author:'' @ u @ '' type:issue'') of
          Inl e \<Rightarrow> [] | Inr i \<Rightarrow> [SearchIssues (''author:'' @ u @ '' type:pr'')])"
  by (simp add: fetchIssuesAndPRs_def Let_def split: sum.splits)

lemma collectLanguages_calls:
  "\<exists>cs. calls (snd (collectLanguages w rs ls s)) = calls s @ cs \<and>
        (\<forall>c\<in>set cs. \<exists>ow rn. c = ListLanguages ow rn)"
proof (induction rs arbitrary: ls s)
  case Nil
  then show ?case by simp
next
  case (Cons r rs)
  show ?case
  proof (cases "repo_fork r")
    case True
    then show ?thesis using Cons.IH [of ls s] by simp
  next
    case False
    let ?c = "ListLanguages (repo_owner_login r) (repo_name r)"
    show ?thesis
    proof (cases "listLanguages w (repo_owner_login r) (repo_name r)")
      case (Inl e)
      obtain cs where cs: "calls (snd (collectLanguages w rs ls
            (warn (''Could not fetch languages for '' @ repo_name r @ '':'') (request ?c s))))
          = calls (warn (''Could not fetch languages for '' @ repo_name r @ '':'') (request ?c s)) @ cs"
        "\<forall>c\<in>set cs. \<exists>ow rn. c = ListLanguages ow rn"
        using Cons.IH by blast
      show ?thesis
        using False Inl cs by (intro exI [of _ "?c # cs"]) (simp add: Let_def)
    next
      case (Inr rl)
      obtain cs where cs: "calls (snd (collectLanguages w rs (addLanguages ls rl) (request ?c s)))
          = calls (request ?c s) @ cs"
        "\<forall>c\<in>set cs. \<exists>ow rn. c = ListLanguages ow rn"
        using Cons.IH by blast
      show ?thesis
        using False Inr cs by (intro exI [of _ "?c # cs"]) (simp add: Let_def)
    qed
  qed
qed

lemma getUserStats_cases [case_names hit type_error no_user no_repos computed]:
  obtains
    (hit) c s1 where
      "getFromCache w (userStatsKey u ip) s = (Some c, s1)"
      "getUserStats w u ip s = (Inr c, s1)"
  | (type_error) s1 e s2 where
      "getFromCache w (userStatsKey u ip) s = (None, s1)"
      "checkAuthenticatedUser w u s1 = (Inl e, s2)"
      "getUserStats w u ip s = (Inl e, s2)"
  | (no_user) s1 b s2 e where
      "getFromCache w (userStatsKey u ip) s = (None, s1)"
      "checkAuthenticatedUser w u s1 = (Inr b, s2)"
      "getByUsername w u = Inl e"
      "getUserStats w u ip s = (Inl e, request (GetByUsername u) s2)"
  | (no_repos) s1 b s2 user e s4 where
      "getFromCache w (userStatsKey u ip) s = (None, s1)"
      "checkAuthenticatedUser w u s1 = (Inr b, s2)"
      "getByUsername w u = Inr user"
      "fetchRepos w u ip b (request (GetByUsername u) s2) = (Inl e, s4)"
      "getUserStats w u ip s = (Inl e, s4)"
  | (computed) s1 b s2 user repos s4 where
      "getFromCache w (userStatsKey u ip) s = (None, s1)"
      "checkAuthenticatedUser w u s1 = (Inr b, s2)"
      "getByUsername w u = Inr user"
      "fetchRepos w u ip b (request (GetByUsername u) s2) = (Inr repos, s4)"
      "getUserStats w u ip s =
         (Inr (CUserStats (buildStats user repos ip
                 (fst (fetchCommits w u s4))
                 (fst (fst (fetchIssuesAndPRs w u (snd (fetchCommits w u s4)))))
                 (snd (fst (fetchIssuesAndPRs w u (snd (fetchCommits w u s4))))))),
          setCache w (userStatsKey u ip)
            (CUserStats (buildStats user repos ip
                 (fst (fetchCommits w u s4))
                 (fst (fst (fetchIssuesAndPRs w u (snd (fetchCommits w u s4)))))
                 (snd (fst (fetchIssuesAndPRs w u (snd (fetchCommits w u s4)))))))
            (snd (fetchIssuesAndPRs w u (snd (fetchCommits w u s4)))))"
proof -
  obtain r0 s1 where g: "getFromCache w (userStatsKey u ip) s = (r0, s1)" by force
  show thesis
  proof (cases r0)
    case (Some c)
    with g show thesis by (intro hit [of c s1]) (simp_all add: getUserStats_def)
  next
    case None
    obtain r1 s2 where a: "checkAuthenticatedUser w u s1 = (r1, s2)" by force
    show thesis
    proof (cases r1)
      case (Inl e)
      with g None a show thesis by (intro type_error [of s1 e s2]) (simp_all add: getUserStats_def)
    next
      case (Inr b)
      show thesis
      proof (cases "getByUsername w u")
        case (Inl e)
        with g None a Inr show thesis
          by (intro no_user [of s1 b s2 e]) (simp_all add: getUserStats_def Let_def)
      next
        case user: (Inr user)
        obtain r3 s4 where f: "fetchRepos w u ip b (request (GetByUsername u) s2) = (r3, s4)"
          by force
        show thesis
        proof (cases r3)
          case (Inl e)
          with g None a Inr user f show thesis
            by (intro no_repos [of s1 b s2 user e s4]) (simp_all add: getUserStats_def Let_def)
        next
          case repos: (Inr repos)
          with g None a Inr user f show thesis
            by (intro computed [of s1 b s2 user repos s4])
               (simp_all add: getUserStats_def Let_def split: prod.splits)
        qed
      qed
    qed
  qed
qed

lemma getFromCache_callsD: "getFromCache w k s = (r, s1) \<Longrightarrow> calls s1 = calls s"
  using getFromCache_calls [of w k s] by simp

lemma checkAuthenticatedUser_callsD:
  "checkAuthenticatedUser w u s1 = (r, s2) \<Longrightarrow>
   \<exists>ca. calls s2 = calls s1 @ ca \<and> set ca \<subseteq> {GetAuthenticated}"
  using checkAuthenticatedUser_calls [of w u s1] by simp

lemma fetchRepos_callsD:
  "fetchRepos w u ip b s = (r, s') \<Longrightarrow>
   calls s' = calls s @ [if ip \<and> b then ListForAuthenticatedUser else ListForUser u]"
  using fetchRepos_calls [of w u ip b s] by simp

lemma fetchRepos_resultD:
  "fetchRepos w u ip b s = (r, s') \<Longrightarrow>
   r = (if ip \<and> b then listForAuthenticatedUser w else listForUser w u)"
  by (auto simp: fetchRepos_def split: if_splits)

lemma fetchCommits_result:
  "fst (fetchCommits w u s) =
     (case searchCommits w (''author:'' @ u) of Inl e \<Rightarrow> 0 | Inr cs \<Rightarrow> length cs)"
  by (simp add: fetchCommits_def Let_def split: sum.splits)

lemma fetchIssuesAndPRs_result:
  "fst (fetchIssuesAndPRs w u s) =
     (case searchIssues w (''author:'' @ u @ '' type:issue'') of
        Inl e \<Rightarrow> (0, 0)
      | Inr i \<Rightarrow>
          (length i,
           case searchIssues w (''author:'' @ u @ '' type:pr'') of
             Inl e \<Rightarrow> 0 | Inr p \<Rightarrow> length p))"
  by (simp add: fetchIssuesAndPRs_def Let_def split: sum.splits)

text \<open>The requests of a computing run of getUserStats, in order.\<close>

lemma getUserStats_computed_calls:
  assumes "getFromCache w (userStatsKey u ip) s = (None, s1)"
    and "checkAuthenticatedUser w u s1 = (Inr b, s2)"
    and "fetchRepos w u ip b (request (GetByUsername u) s2) = (Inr repos, s4)"
  shows "\<exists>ca. set ca \<subseteq> {GetAuthenticated} \<and>
     calls (setCache w k v (snd (fetchIssuesAndPRs w u (snd (fetchCommits w u s4))))) =
       calls s @ ca @
         [GetByUsername u,
          if ip \<and> b then ListForAuthenticatedUser else ListForUser u,
          SearchCommits (''author:'' @ u),
          SearchIssues (''author:'' @ u @ '' type:issue'')] @
         (case searchIssues w (''author:'' @ u @ '' type:issue'') of
            Inl e \<Rightarrow> [] | Inr i \<Rightarrow> [SearchIssues (''author:'' @ u @ '' type:pr'')])"
proof -
  obtain ca where ca: "calls s2 = calls s1 @ ca" "set ca \<subseteq> {GetAuthenticated}"
    using checkAuthenticatedUser_callsD [OF assms(2)] by blast
  have "calls s1 = calls s" using getFromCache_callsD [OF assms(1)] .
  moreover have "calls s4 = calls s2 @ [GetByUsername u,
      if ip \<and> b then ListForAuthenticatedUser else ListForUser u]"
    using fetchRepos_callsD [OF assms(3)] by simp
  ultimately show ?thesis
    using ca by (intro exI [of _ ca]) (simp add: fetchIssuesAndPRs_calls fetchCommits_calls)
qed

subsection \<open>User statistics\<close>

text \<open>A change of the commit search alone leaves every other step as it was.\<close>

lemma getFromCache_searchCommits [simp]:
  "getFromCache (w\<lparr>searchCommits := f\<rparr>) k s = getFromCache w k s"
  by (simp add: getFromCache_def split: option.splits)

lemma setCache_searchCommits [simp]:
  "setCache (w\<lparr>searchCommits := f\<rparr>) k v s = setCache w k v s"
  by (simp add: setCache_def)

lemma checkAuthenticatedUser_searchCommits [simp]:
  "checkAuthenticatedUser (w\<lparr>searchCommits := f\<rparr>) u s = checkAuthenticatedUser w u s"
  by (simp add: checkAuthenticatedUser_def Let_def split: prod.splits option.splits cached.splits sum.splits)

lemma fetchRepos_searchCommits [simp]:
  "fetchRepos (w\<lparr>searchCommits := f\<rparr>) u ip b s = fetchRepos w u ip b s"
  by (simp add: fetchRepos_def)

lemma fetchIssuesAndPRs_result_searchCommits [simp]:
  "fst (fetchIssuesAndPRs (w\<lparr>searchCommits := f\<rparr>) u s) = fst (fetchIssuesAndPRs w u s)"
  by (simp add: fetchIssuesAndPRs_result split: sum.splits)

lemma fetchIssuesAndPRs_result_state:
  "fst (fetchIssuesAndPRs w u s) = fst (fetchIssuesAndPRs w u s')"
  by (simp add: fetchIssuesAndPRs_result)

lemma getUserStats_computed_result:
  assumes "getFromCache w (userStatsKey u ip) s = (None, s1)"
    and "checkAuthenticatedUser w u s1 = (Inr b, s2)"
    and "getByUsername w u = Inr user"
    and "fetchRepos w u ip b (request (GetByUsername u) s2) = (Inr repos, s4)"
  shows "fst (getUserStats w u ip s) =
     Inr (CUserStats (buildStats user repos ip
            (fst (fetchCommits w u s4))
            (fst (fst (fetchIssuesAndPRs w u s4)))
            (snd (fst (fetchIssuesAndPRs w u s4)))))"
proof (cases rule: getUserStats_cases [of w u ip s])
  case (hit c s1)
  with assms show ?thesis by simp
next
  case (type_error s1 e s2)
  with assms show ?thesis by simp
next
  case (no_user s1 b s2 e)
  with assms show ?thesis by simp
next
  case (no_repos s1 b s2 user e s4)
  with assms show ?thesis by simp
next
  case (computed s1' b' s2' user' repos' s4')
  with assms have "s4' = s4" "repos' = repos" "user' = user" by simp_all
  with computed(5) show ?thesis
    using fetchIssuesAndPRs_result_state [of w u s4 "snd (fetchCommits w u s4)"] by simp
qed

lemma getUserStats_returns:
  assumes miss: "fst (getFromCache w (userStatsKey u ip) s) = None"
    and auth: "fst (checkAuthenticatedUser w u (snd (getFromCache w (userStatsKey u ip) s))) = Inr b"
    and user: "getByUsername w u = Inr user"
    and listed: "(if ip \<and> b then listForAuthenticatedUser w else listForUser w u) = Inr repos"
  shows "fst (getUserStats w u ip s) =
           Inr (CUserStats (buildStats user repos ip
                  (fst (fetchCommits w u s))
                  (fst (fst (fetchIssuesAndPRs w u s)))
                  (snd (fst (fetchIssuesAndPRs w u s)))))
       \<and> (\<exists>ca. set ca \<subseteq> {GetAuthenticated} \<and>
             newCalls s (snd (getUserStats w u ip s)) =
               ca @
               [GetByUsername u,
                if ip \<and> b then ListForAuthenticatedUser else ListForUser u,
                SearchCommits (''author:'' @ u),
                SearchIssues (''author:'' @ u @ '' type:issue'')] @
               (case searchIssues w (''author:'' @ u @ '' type:issue'') of
                  Inl e \<Rightarrow> [] | Inr i \<Rightarrow> [SearchIssues (''author:'' @ u @ '' type:pr'')]))"
proof -
  obtain s1 where g: "getFromCache w (userStatsKey u ip) s = (None, s1)"
    using miss by (metis prod.collapse)
  obtain s2 where a: "checkAuthenticatedUser w u s1 = (Inr b, s2)"
    using auth g by (metis prod.collapse snd_conv)
  define s4 where "s4 = snd (fetchRepos w u ip b (request (GetByUsername u) s2))"
  have f: "fetchRepos w u ip b (request (GetByUsername u) s2) = (Inr repos, s4)"
    unfolding s4_def using listed by (auto simp: fetchRepos_def split: if_splits)
  have r: "fst (getUserStats w u ip s) =
           Inr (CUserStats (buildStats user repos ip
                  (fst (fetchCommits w u s))
                  (fst (fst (fetchIssuesAndPRs w u s)))
                  (snd (fst (fetchIssuesAndPRs w u s)))))"
    using getUserStats_computed_result [OF g a user f]
    by (simp add: fetchCommits_result fetchIssuesAndPRs_result)
  have "getUserStats w u ip s =
         (fst (getUserStats w u ip s),
          setCache w (userStatsKey u ip)
            (CUserStats (buildStats user repos ip
                 (fst (fetchCommits w u s4))
                 (fst (fst (fetchIssuesAndPRs w u (snd (fetchCommits w u s4)))))
                 (snd (fst (fetchIssuesAndPRs w u (snd (fetchCommits w u s4)))))))
            (snd (fetchIssuesAndPRs w u (snd (fetchCommits w u s4)))))"
    using g a user f by (simp add: getUserStats_def Let_def split: prod.splits)
  then obtain ca where "set ca \<subseteq> {GetAuthenticated}"
    "calls (snd (getUserStats w u ip s)) = calls s @ ca @
         [GetByUsername u,
          if ip \<and> b then ListForAuthenticatedUser else ListForUser u,
          SearchCommits (''author:'' @ u),
          SearchIssues (''author:'' @ u @ '' type:issue'')] @
         (case searchIssues w (''author:'' @ u @ '' type:issue'') of
            Inl e \<Rightarrow> [] | Inr i \<Rightarrow> [SearchIssues (''author:'' @ u @ '' type:pr'')])"
    using getUserStats_computed_calls [OF g a f] by (metis snd_conv)
  then show ?thesis
    using r newCalls_append by blast
qed

text \<open>
  Claim C1, as the code has it. When the cache misses, the identity check does not
  throw, and the profile and the repository list are fetched, \<open>getUserStats\<close>
  returns a record, whatever the two searches do. The issue search and the
  pull-request search sit in one \<open>try\<close> block: when the issue search fails,
  \<open>totalIssues\<close> and \<open>totalPRs\<close> are both 0 and the pull-request search is not
  issued; when the issue search succeeds, \<open>totalIssues\<close> is its count, the
  pull-request search is issued, and \<open>totalPRs\<close> is its count, or 0 when it fails.
\<close>

theorem issue_and_pr_search_share_one_try:
  assumes miss: "fst (getFromCache w (userStatsKey u ip) s) = None"
    and auth: "fst (checkAuthenticatedUser w u (snd (getFromCache w (userStatsKey u ip) s))) = Inr b"
    and user: "getByUsername w u = Inr user"
    and listed: "(if ip \<and> b then listForAuthenticatedUser w else listForUser w u) = Inr repos"
  shows "\<exists>st. fst (getUserStats w u ip s) = Inr (CUserStats st)
       \<and> (\<forall>e. searchIssues w (''author:'' @ u @ '' type:issue'') = Inl e \<longrightarrow>
            totalIssues st = 0 \<and> totalPRs st = 0 \<and>
            SearchIssues (''author:'' @ u @ '' type:pr'')
              \<notin> set (newCalls s (snd (getUserStats w u ip s))))
       \<and> (\<forall>i. searchIssues w (''author:'' @ u @ '' type:issue'') = Inr i \<longrightarrow>
            totalIssues st = length i \<and>
            SearchIssues (''author:'' @ u @ '' type:pr'')
              \<in> set (newCalls s (snd (getUserStats w u ip s))) \<and>
            totalPRs st =
              (case searchIssues w (''author:'' @ u @ '' type:pr'') of
                 Inl e \<Rightarrow> 0 | Inr p \<Rightarrow> length p))"
proof -
  let ?st = "buildStats user repos ip
                  (fst (fetchCommits w u s))
                  (fst (fst (fetchIssuesAndPRs w u s)))
                  (snd (fst (fetchIssuesAndPRs w u s)))"
  from getUserStats_returns [OF miss auth user listed]
  obtain ca where r: "fst (getUserStats w u ip s) = Inr (CUserStats ?st)"
    and ca: "set ca \<subseteq> {GetAuthenticated}"
    and nc: "newCalls s (snd (getUserStats w u ip s)) =
               ca @
               [GetByUsername u,
                if ip \<and> b then ListForAuthenticatedUser else ListForUser u,
                SearchCommits (''author:'' @ u),
                SearchIssues (''author:'' @ u @ '' type:issue'')] @
               (case searchIssues w (''author:'' @ u @ '' type:issue'') of
                  Inl e \<Rightarrow> [] | Inr i \<Rightarrow> [SearchIssues (''author:'' @ u @ '' type:pr'')])"
    by blast
  have notin: "SearchIssues q \<notin> set ca" for q using ca by auto
  show ?thesis
    unfolding nc
    by (intro exI [of _ ?st])
       (auto simp: r buildStats_def Let_def fetchIssuesAndPRs_result notin split: sum.splits)
qed

theorem issue_and_pr_search_share_one_try_witness:
  "fst (getFromCache issuesDownWorld (userStatsKey ''octocat'' False) emptyState) = None
   \<and> fst (checkAuthenticatedUser issuesDownWorld ''octocat''
            (snd (getFromCache issuesDownWorld (userStatsKey ''octocat'' False) emptyState)))
       = Inr True
   \<and> getByUsername issuesDownWorld ''octocat'' = Inr sampleProfile
   \<and> (if False \<and> True then listForAuthenticatedUser issuesDownWorld
        else listForUser issuesDownWorld ''octocat'') = Inr sampleRepos
   \<and> searchIssues issuesDownWorld (''author:'' @ ''octocat'' @ '' type:issue'')
       = Inl (RequestError ''Validation Failed'')
   \<and> fst (getUserStats issuesDownWorld ''octocat'' False emptyState) =
       Inr (CUserStats
         \<lparr>username = ''octocat'', name = ''The Octocat'', totalStars = 15, totalForks = 1,
          totalRepos = 2, publicRepos = 8, privateRepos = 0, followers = 3, following = 4,
          totalCommits = 3, totalIssues = 0, totalPRs = 0\<rparr>)
   \<and> SearchIssues (''author:'' @ ''octocat'' @ '' type:pr'')
       \<notin> set (newCalls emptyState (snd (getUserStats issuesDownWorld ''octocat'' False emptyState)))"
  (is "?miss \<and> ?auth \<and> ?user \<and> ?listed \<and> ?fail \<and> ?res \<and> ?skip")
proof -
  have miss: ?miss by (simp add: world_defs run_defs)
  have auth: ?auth by (simp add: world_defs run_defs)
  have user: ?user by (simp add: world_defs)
  have listed: ?listed by (simp add: world_defs)
  have fail: ?fail by (simp add: world_defs)
  have res: ?res by (simp add: world_defs run_defs)
  from issue_and_pr_search_share_one_try [OF miss auth user listed] fail
  have skip: ?skip by blast
  from miss auth user listed fail res skip show ?thesis by blast
qed

text \<open>
  Claim C1 as the specification words it fails: with the issue search failing and a
  pull-request search that would answer two results, the pull-request search is not
  issued and \<open>totalPRs\<close> is 0.
\<close>

theorem issue_failure_skips_pr_search_counterexample:
  "searchIssues issuesDownWorld ''author:octocat type:pr'' = Inr [1, 2]
   \<and> fst (getUserStats issuesDownWorld ''octocat'' False emptyState) =
       Inr (CUserStats
         \<lparr>username = ''octocat'', name = ''The Octocat'', totalStars = 15, totalForks = 1,
          totalRepos = 2, publicRepos = 8, privateRepos = 0, followers = 3, following = 4,
          totalCommits = 3, totalIssues = 0, totalPRs = 0\<rparr>)
   \<and> calls (snd (getUserStats issuesDownWorld ''octocat'' False emptyState)) =
       [GetAuthenticated, GetByUsername ''octocat'', ListForUser ''octocat'',
        SearchCommits ''author:octocat'', SearchIssues ''author:octocat type:issue'']"
  by (simp add: world_defs run_defs)

text \<open>
  Claim C2, as the code has it. When the cache misses, the identity check does not
  throw, and the profile and the repository list are fetched, \<open>getUserStats\<close>
  returns a record whose two repository counts follow the \<open>includePrivate\<close> flag
  alone: when the flag is false, \<open>publicRepos\<close> is the profile's \<open>public_repos\<close>
  and \<open>privateRepos\<close> is 0; when the flag is true, both are counted by visibility
  in the fetched list, whichever listing endpoint the list came from (the
  authenticated one exactly when the flag is set and the username is the token
  owner's).
\<close>

theorem repo_counts_follow_the_flag:
  assumes miss: "fst (getFromCache w (userStatsKey u ip) s) = None"
    and auth: "fst (checkAuthenticatedUser w u (snd (getFromCache w (userStatsKey u ip) s))) = Inr b"
    and user: "getByUsername w u = Inr user"
    and listed: "(if ip \<and> b then listForAuthenticatedUser w else listForUser w u) = Inr repos"
  shows "\<exists>st. fst (getUserStats w u ip s) = Inr (CUserStats st)
       \<and> (ListForAuthenticatedUser \<in> set (newCalls s (snd (getUserStats w u ip s)))) = (ip \<and> b)
       \<and> (\<not> ip \<longrightarrow> publicRepos st = user_public_repos user \<and> privateRepos st = 0)
       \<and> (ip \<longrightarrow> publicRepos st = length (filter (\<lambda>r. \<not> repo_private r) repos)
               \<and> privateRepos st = length (filter (\<lambda>r. repo_private r) repos))"
proof -
  let ?st = "buildStats user repos ip
                  (fst (fetchCommits w u s))
                  (fst (fst (fetchIssuesAndPRs w u s)))
                  (snd (fst (fetchIssuesAndPRs w u s)))"
  from getUserStats_returns [OF miss auth user listed]
  obtain ca where r: "fst (getUserStats w u ip s) = Inr (CUserStats ?st)"
    and ca: "set ca \<subseteq> {GetAuthenticated}"
    and nc: "newCalls s (snd (getUserStats w u ip s)) =
               ca @
               [GetByUsername u,
                if ip \<and> b then ListForAuthenticatedUser else ListForUser u,
                SearchCommits (''author:'' @ u),
                SearchIssues (''author:'' @ u @ '' type:issue'')] @
               (case searchIssues w (''author:'' @ u @ '' type:issue'') of
                  Inl e \<Rightarrow> [] | Inr i \<Rightarrow> [SearchIssues (''author:'' @ u @ '' type:pr'')])"
    by blast
  have notin: "ListForAuthenticatedUser \<notin> set ca" using ca by auto
  show ?thesis
    unfolding nc
    by (intro exI [of _ ?st])
       (auto simp: r buildStats_def Let_def notin split: sum.splits)
qed

theorem repo_counts_follow_the_flag_witness:
  "(fst (getFromCache sampleWorld (userStatsKey ''octocat'' False) emptyState) = None
    \<and> fst (checkAuthenticatedUser sampleWorld ''octocat''
            (snd (getFromCache sampleWorld (userStatsKey ''octocat'' False) emptyState)))
        = Inr True
    \<and> getByUsername sampleWorld ''octocat'' = Inr sampleProfile
    \<and> (if False \<and> True then listForAuthenticatedUser sampleWorld
         else listForUser sampleWorld ''octocat'') = Inr sampleRepos
    \<and> fst (getUserStats sampleWorld ''octocat'' False emptyState) =
        Inr (CUserStats
          \<lparr>username = ''octocat'', name = ''The Octocat'', totalStars = 15, totalForks = 1,
           totalRepos = 2, publicRepos = 8, privateRepos = 0, followers = 3, following = 4,
           totalCommits = 3, totalIssues = 1, totalPRs = 2\<rparr>)
    \<and> user_public_repos sampleProfile = 8
    \<and> ListForAuthenticatedUser
        \<notin> set (newCalls emptyState (snd (getUserStats sampleWorld ''octocat'' False emptyState))))
   \<and> (fst (getFromCache sampleWorld (userStatsKey ''octocat'' True) emptyState) = None
    \<and> fst (checkAuthenticatedUser sampleWorld ''octocat''
            (snd (getFromCache sampleWorld (userStatsKey ''octocat'' True) emptyState)))
        = Inr True
    \<and> (if True \<and> True then listForAuthenticatedUser sampleWorld
         else listForUser sampleWorld ''octocat'') = Inr (sampleRepos @ [secretRepo])
    \<and> fst (getUserStats sampleWorld ''octocat'' True emptyState) =
        Inr (CUserStats
          \<lparr>username = ''octocat'', name = ''The Octocat'', totalStars = 15, totalForks = 1,
           totalRepos = 3, publicRepos = 2, privateRepos = 1, followers = 3, following = 4,
           totalCommits = 3, totalIssues = 1, totalPRs = 2\<rparr>)
    \<and> length (filter (\<lambda>r. \<not> repo_private r) (sampleRepos @ [secretRepo])) = 2
    \<and> length (filter (\<lambda>r. repo_private r) (sampleRepos @ [secretRepo])) = 1
    \<and> ListForAuthenticatedUser
        \<in> set (newCalls emptyState (snd (getUserStats sampleWorld ''octocat'' True emptyState))))"
  (is "(?miss \<and> ?auth \<and> ?user \<and> ?listed \<and> ?res \<and> ?pub \<and> ?noauth)
       \<and> (?miss' \<and> ?auth' \<and> ?listed' \<and> ?res' \<and> ?cpub \<and> ?cpriv \<and> ?viaauth)")
proof -
  have miss: ?miss and miss': ?miss' by (simp_all add: world_defs run_defs)
  have auth: ?auth and auth': ?auth' by (simp_all add: world_defs run_defs)
  have user: ?user by (simp add: world_defs)
  have listed: ?listed and listed': ?listed' by (simp_all add: world_defs)
  have res: ?res and res': ?res' by (simp_all add: world_defs run_defs)
  have pub: ?pub by (simp add: world_defs)
  from repo_counts_follow_the_flag [OF miss auth user listed] have noauth: ?noauth by blast
  from repo_counts_follow_the_flag [OF miss' auth' user listed'] res'
  have cpub: ?cpub and cpriv: ?cpriv and viaauth: ?viaauth by auto
  from miss auth user listed res pub noauth miss' auth' listed' res' cpub cpriv viaauth
  show ?thesis by blast
qed

text \<open>
  Claim C2 as the specification words it fails: with the flag set and a token that
  belongs to another user, the list comes from the public listing, and \<open>publicRepos\<close>
  is the 2 counted in that list, not the 8 the profile reports.
\<close>

theorem public_listing_with_private_flag_counterexample:
  "getByUsername strangerWorld ''octocat'' = Inr sampleProfile
   \<and> user_public_repos sampleProfile = 8
   \<and> fst (getUserStats strangerWorld ''octocat'' True emptyState) =
       Inr (CUserStats
         \<lparr>username = ''octocat'', name = ''The Octocat'', totalStars = 15, totalForks = 1,
          totalRepos = 2, publicRepos = 2, privateRepos = 0, followers = 3, following = 4,
          totalCommits = 3, totalIssues = 1, totalPRs = 2\<rparr>)
   \<and> calls (snd (getUserStats strangerWorld ''octocat'' True emptyState)) =
       [GetAuthenticated, GetByUsername ''octocat'', ListForUser ''octocat'',
        SearchCommits ''author:octocat'', SearchIssues ''author:octocat type:issue'',
        SearchIssues ''author:octocat type:pr'']"
  by (simp add: world_defs run_defs)

text \<open>
  Claim C6. In a run of \<open>getUserStats\<close> that misses the cache, a failing commit
  search is caught: the outcome is the outcome of the same run with a commit search
  that answers, with \<open>totalCommits\<close> set to 0 and every other field unchanged. So
  \<open>totalCommits\<close> is 0; the run ends in an error only where the run with the
  answering commit search ends in the same error; and when the identity check does
  not throw and the profile and the repository list are fetched, the run returns the
  record built from them and from the issue and pull-request searches.
\<close>

theorem commit_search_failure_is_absorbed:
  assumes miss: "fst (getFromCache w (userStatsKey u ip) s) = None"
    and fail: "searchCommits w (''author:'' @ u) = Inl e"
  shows "fst (getUserStats w u ip s) =
           map_sum id (withTotalCommits 0)
             (fst (getUserStats
                (w\<lparr>searchCommits := (searchCommits w)(''author:'' @ u := Inr cs)\<rparr>) u ip s))
       \<and> (\<forall>st. fst (getUserStats w u ip s) = Inr (CUserStats st) \<longrightarrow> totalCommits st = 0)
       \<and> (\<forall>e'. fst (getUserStats w u ip s) = Inl e' \<longrightarrow>
             fst (getUserStats
                (w\<lparr>searchCommits := (searchCommits w)(''author:'' @ u := Inr cs)\<rparr>) u ip s) = Inl e')
       \<and> (\<forall>b user repos.
             fst (checkAuthenticatedUser w u (snd (getFromCache w (userStatsKey u ip) s))) = Inr b \<longrightarrow>
             getByUsername w u = Inr user \<longrightarrow>
             (if ip \<and> b then listForAuthenticatedUser w else listForUser w u) = Inr repos \<longrightarrow>
             fst (getUserStats w u ip s) =
               Inr (CUserStats (buildStats user repos ip 0
                      (fst (fst (fetchIssuesAndPRs w u s)))
                      (snd (fst (fetchIssuesAndPRs w u s))))))"
  (is "?same \<and> ?zero \<and> ?errors \<and> ?returns")
proof -
  have returns: ?returns
    using getUserStats_returns [OF miss] fail by (auto simp: fetchCommits_result)
  have "?same \<and> ?zero \<and> ?errors"
  proof (cases rule: getUserStats_cases [of w u ip s])
    case (hit c s1)
    with miss show ?thesis by simp
  next
    case (type_error s1 e s2)
    then show ?thesis by (simp add: getUserStats_def)
  next
    case (no_user s1 b s2 e)
    then show ?thesis by (simp add: getUserStats_def Let_def)
  next
    case (no_repos s1 b s2 user e s4)
    then show ?thesis by (simp add: getUserStats_def Let_def)
  next
    case (computed s1 b s2 user repos s4)
    let ?w = "w\<lparr>searchCommits := (searchCommits w)(''author:'' @ u := Inr cs)\<rparr>"
    have a: "fst (getUserStats w u ip s) =
       Inr (CUserStats (buildStats user repos ip 0
              (fst (fst (fetchIssuesAndPRs w u s4)))
              (snd (fst (fetchIssuesAndPRs w u s4)))))"
      using getUserStats_computed_result [OF computed(1-4)] fail
      by (simp add: fetchCommits_result)
    have b: "fst (getUserStats ?w u ip s) =
       Inr (CUserStats (buildStats user repos ip (length cs)
              (fst (fst (fetchIssuesAndPRs w u s4)))
              (snd (fst (fetchIssuesAndPRs w u s4)))))"
      using getUserStats_computed_result [of ?w u ip s s1 b s2 user repos s4] computed(1-4)
      by (simp add: fetchCommits_result)
    show ?thesis
      unfolding a b by (simp add: withTotalCommits_def buildStats_def Let_def)
  qed
  with returns show ?thesis by blast
qed

theorem commit_search_failure_is_absorbed_witness:
  "fst (getFromCache commitsDownWorld (userStatsKey ''octocat'' False) emptyState) = None
   \<and> searchCommits commitsDownWorld (''author:'' @ ''octocat'') = Inl (RequestError ''Validation Failed'')
   \<and> fst (getUserStats commitsDownWorld ''octocat'' False emptyState) =
       Inr (CUserStats
         \<lparr>username = ''octocat'', name = ''The Octocat'', totalStars = 15, totalForks = 1,
          totalRepos = 2, publicRepos = 8, privateRepos = 0, followers = 3, following = 4,
          totalCommits = 0, totalIssues = 1, totalPRs = 2\<rparr>)
   \<and> fst (getUserStats
          (commitsDownWorld\<lparr>searchCommits :=
             (searchCommits commitsDownWorld)(''author:'' @ ''octocat'' := Inr [1, 2, 3])\<rparr>)
          ''octocat'' False emptyState) =
       Inr (CUserStats
         \<lparr>username = ''octocat'', name = ''The Octocat'', totalStars = 15, totalForks = 1,
          totalRepos = 2, publicRepos = 8, privateRepos = 0, followers = 3, following = 4,
          totalCommits = 3, totalIssues = 1, totalPRs = 2\<rparr>)"
  (is "?miss \<and> ?fail \<and> ?down \<and> ?up")
proof -
  have miss: ?miss by (simp add: world_defs run_defs)
  have fail: ?fail by (simp add: world_defs)
  have up: ?up by (simp add: world_defs run_defs)
  from commit_search_failure_is_absorbed [OF miss fail, of "[1, 2, 3]"] up
  have down: ?down by (simp add: withTotalCommits_def)
  from miss fail down up show ?thesis by blast
qed

subsection \<open>Language statistics: the shape of a run\<close>

lemma getLanguageStats_cases [case_names hit type_error no_repos computed]:
  obtains
    (hit) c s1 where
      "getFromCache w (langStatsKey u ip) s = (Some c, s1)"
      "getLanguageStats w u ip s = (Inr c, s1)"
  | (type_error) s1 e s2 where
      "getFromCache w (langStatsKey u ip) s = (None, s1)"
      "checkAuthenticatedUser w u s1 = (Inl e, s2)"
      "getLanguageStats w u ip s = (Inl e, s2)"
  | (no_repos) s1 b s2 e s3 where
      "getFromCache w (langStatsKey u ip) s = (None, s1)"
      "checkAuthenticatedUser w u s1 = (Inr b, s2)"
      "fetchRepos w u ip b s2 = (Inl e, s3)"
      "getLanguageStats w u ip s = (Inl e, s3)"
  | (computed) s1 b s2 repos s3 where
      "getFromCache w (langStatsKey u ip) s = (None, s1)"
      "checkAuthenticatedUser w u s1 = (Inr b, s2)"
      "fetchRepos w u ip b s2 = (Inr repos, s3)"
      "getLanguageStats w u ip s =
         (Inr (CLanguageStats (languagePercentages (fst (collectLanguages w repos [] s3)))),
          setCache w (langStatsKey u ip)
            (CLanguageStats (languagePercentages (fst (collectLanguages w repos [] s3))))
            (snd (collectLanguages w repos [] s3)))"
proof -
  obtain r0 s1 where g: "getFromCache w (langStatsKey u ip) s = (r0, s1)" by force
  show thesis
  proof (cases r0)
    case (Some c)
    with g show thesis by (intro hit [of c s1]) (simp_all add: getLanguageStats_def)
  next
    case None
    obtain r1 s2 where a: "checkAuthenticatedUser w u s1 = (r1, s2)" by force
    show thesis
    proof (cases r1)
      case (Inl e)
      with g None a show thesis
        by (intro type_error [of s1 e s2]) (simp_all add: getLanguageStats_def)
    next
      case (Inr b)
      obtain r2 s3 where f: "fetchRepos w u ip b s2 = (r2, s3)" by force
      show thesis
      proof (cases r2)
        case (Inl e)
        with g None a Inr f show thesis
          by (intro no_repos [of s1 b s2 e s3]) (simp_all add: getLanguageStats_def)
      next
        case repos: (Inr repos)
        with g None a Inr f show thesis
          by (intro computed [of s1 b s2 repos s3])
             (simp_all add: getLanguageStats_def Let_def split: prod.splits)
      qed
    qed
  qed
qed

subsection \<open>Visibility routing\<close>

lemma getUserStats_newCalls:
  "\<exists>cs. calls (snd (getUserStats w u ip s)) = calls s @ cs
        \<and> (ListForAuthenticatedUser \<in> set cs \<longrightarrow> ip)
        \<and> (\<forall>r. fst (getFromCache w (userStatsKey u ip) s) = None \<longrightarrow>
                 fst (getUserStats w u ip s) = Inr r \<longrightarrow> \<not> ip \<longrightarrow>
                 ListForUser u \<in> set cs \<and> (\<exists>repos. listForUser w u = Inr repos))"
proof (cases rule: getUserStats_cases [of w u ip s])
  case (hit c s1)
  then show ?thesis using getFromCache_callsD [OF hit(1)] by simp
next
  case (type_error s1 e s2)
  obtain ca where "calls s2 = calls s1 @ ca" "set ca \<subseteq> {GetAuthenticated}"
    using checkAuthenticatedUser_callsD [OF type_error(2)] by blast
  then show ?thesis
    using type_error getFromCache_callsD [OF type_error(1)]
    by (intro exI [of _ ca]) auto
next
  case (no_user s1 b s2 e)
  obtain ca where "calls s2 = calls s1 @ ca" "set ca \<subseteq> {GetAuthenticated}"
    using checkAuthenticatedUser_callsD [OF no_user(2)] by blast
  then show ?thesis
    using no_user getFromCache_callsD [OF no_user(1)]
    by (intro exI [of _ "ca @ [GetByUsername u]"]) auto
next
  case (no_repos s1 b s2 user e s4)
  obtain ca where "calls s2 = calls s1 @ ca" "set ca \<subseteq> {GetAuthenticated}"
    using checkAuthenticatedUser_callsD [OF no_repos(2)] by blast
  then show ?thesis
    using no_repos getFromCache_callsD [OF no_repos(1)] fetchRepos_callsD [OF no_repos(4)]
    by (intro exI [of _ "ca @ [GetByUsername u,
          if ip \<and> b then ListForAuthenticatedUser else ListForUser u]"]) auto
next
  case (computed s1 b s2 user repos s4)
  obtain ca where ca: "set ca \<subseteq> {GetAuthenticated}"
    "calls (snd (getUserStats w u ip s)) = calls s @ ca @
         [GetByUsername u,
          if ip \<and> b then ListForAuthenticatedUser else ListForUser u,
          SearchCommits (''author:'' @ u),
          SearchIssues (''author:'' @ u @ '' type:issue'')] @
         (case searchIssues w (''author:'' @ u @ '' type:issue'') of
            Inl e \<Rightarrow> [] | Inr i \<Rightarrow> [SearchIssues (''author:'' @ u @ '' type:pr'')])"
    using getUserStats_computed_calls [OF computed(1,2,4)] computed(5) by auto
  have repos: "(if ip \<and> b then listForAuthenticatedUser w else listForUser w u) = Inr repos"
    using fetchRepos_resultD [OF computed(4)] by simp
  show ?thesis
    using ca repos
    by (intro exI [of _ "ca @
         [GetByUsername u,
          if ip \<and> b then ListForAuthenticatedUser else ListForUser u,
          SearchCommits (''author:'' @ u),
          SearchIssues (''author:'' @ u @ '' type:issue'')] @
         (case searchIssues w (''author:'' @ u @ '' type:issue'') of
            Inl e \<Rightarrow> [] | Inr i \<Rightarrow> [SearchIssues (''author:'' @ u @ '' type:pr'')])"])
       (auto split: sum.splits)
qed

lemma getLanguageStats_newCalls:
  "\<exists>cs. calls (snd (getLanguageStats w u ip s)) = calls s @ cs
        \<and> (ListForAuthenticatedUser \<in> set cs \<longrightarrow> ip)
        \<and> (\<forall>r. fst (getFromCache w (langStatsKey u ip) s) = None \<longrightarrow>
                 fst (getLanguageStats w u ip s) = Inr r \<longrightarrow> \<not> ip \<longrightarrow>
                 ListForUser u \<in> set cs \<and> (\<exists>repos. listForUser w u = Inr repos))"
proof (cases rule: getLanguageStats_cases [of w u ip s])
  case (hit c s1)
  then show ?thesis using getFromCache_callsD [OF hit(1)] by simp
next
  case (type_error s1 e s2)
  obtain ca where "calls s2 = calls s1 @ ca" "set ca \<subseteq> {GetAuthenticated}"
    using checkAuthenticatedUser_callsD [OF type_error(2)] by blast
  then show ?thesis
    using type_error getFromCache_callsD [OF type_error(1)]
    by (intro exI [of _ ca]) auto
next
  case (no_repos s1 b s2 e s3)
  obtain ca where "calls s2 = calls s1 @ ca" "set ca \<subseteq> {GetAuthenticated}"
    using checkAuthenticatedUser_callsD [OF no_repos(2)] by blast
  then show ?thesis
    using no_repos getFromCache_callsD [OF no_repos(1)] fetchRepos_callsD [OF no_repos(3)]
    by (intro exI [of _ "ca @ [if ip \<and> b then ListForAuthenticatedUser else ListForUser u]"])
       auto
next
  case (computed s1 b s2 repos s3)
  obtain ca where ca: "calls s2 = calls s1 @ ca" "set ca \<subseteq> {GetAuthenticated}"
    using checkAuthenticatedUser_callsD [OF computed(2)] by blast
  obtain cl where cl: "calls (snd (collectLanguages w repos [] s3)) = calls s3 @ cl"
    "\<forall>c\<in>set cl. \<exists>ow rn. c = ListLanguages ow rn"
    using collectLanguages_calls [of w repos "[]" s3] by blast
  have repos: "(if ip \<and> b then listForAuthenticatedUser w else listForUser w u) = Inr repos"
    using fetchRepos_resultD [OF computed(3)] by simp
  show ?thesis
    using ca cl repos computed(4) getFromCache_callsD [OF computed(1)]
      fetchRepos_callsD [OF computed(3)]
    by (intro exI [of _ "ca @ [if ip \<and> b then ListForAuthenticatedUser else ListForUser u] @ cl"])
       (auto split: if_splits)
qed

text \<open>
  Claim C5. With \<open>includePrivate\<close> false, neither \<open>getUserStats\<close> nor
  \<open>getLanguageStats\<close> issues the authenticated-user listing request, for any
  username, any token owner and any state of the cache; and a run that computes a
  result has issued the public listing request for that username and got its list
  from it.
\<close>

theorem public_flag_uses_public_listing:
  "ListForAuthenticatedUser \<notin> set (newCalls s (snd (getUserStats w u False s)))
   \<and> ListForAuthenticatedUser \<notin> set (newCalls s (snd (getLanguageStats w u False s)))
   \<and> (\<forall>r. fst (getFromCache w (userStatsKey u False) s) = None \<longrightarrow>
            fst (getUserStats w u False s) = Inr r \<longrightarrow>
            ListForUser u \<in> set (newCalls s (snd (getUserStats w u False s)))
            \<and> (\<exists>repos. listForUser w u = Inr repos))
   \<and> (\<forall>r. fst (getFromCache w (langStatsKey u False) s) = None \<longrightarrow>
            fst (getLanguageStats w u False s) = Inr r \<longrightarrow>
            ListForUser u \<in> set (newCalls s (snd (getLanguageStats w u False s)))
            \<and> (\<exists>repos. listForUser w u = Inr repos))"
proof -
  obtain cs where cs: "calls (snd (getUserStats w u False s)) = calls s @ cs"
    "ListForAuthenticatedUser \<notin> set cs"
    "\<forall>r. fst (getFromCache w (userStatsKey u False) s) = None \<longrightarrow>
         fst (getUserStats w u False s) = Inr r \<longrightarrow>
         ListForUser u \<in> set cs \<and> (\<exists>repos. listForUser w u = Inr repos)"
    using getUserStats_newCalls [of w u False s] by auto
  obtain cl where cl: "calls (snd (getLanguageStats w u False s)) = calls s @ cl"
    "ListForAuthenticatedUser \<notin> set cl"
    "\<forall>r. fst (getFromCache w (langStatsKey u False) s) = None \<longrightarrow>
         fst (getLanguageStats w u False s) = Inr r \<longrightarrow>
         ListForUser u \<in> set cl \<and> (\<exists>repos. listForUser w u = Inr repos)"
    using getLanguageStats_newCalls [of w u False s] by auto
  show ?thesis
    using cs cl by (simp add: newCalls_append [OF cs(1)] newCalls_append [OF cl(1)])
qed

theorem public_flag_uses_public_listing_witness:
  "getAuthenticated sampleWorld = Inr \<lparr>auth_login = ''Octocat''\<rparr>
   \<and> toLowerCase ''Octocat'' = toLowerCase ''octocat''
   \<and> fst (getFromCache sampleWorld (userStatsKey ''octocat'' False) emptyState) = None
   \<and> fst (getUserStats sampleWorld ''octocat'' False emptyState) =
       Inr (CUserStats
         \<lparr>username = ''octocat'', name = ''The Octocat'', totalStars = 15, totalForks = 1,
          totalRepos = 2, publicRepos = 8, privateRepos = 0, followers = 3, following = 4,
          totalCommits = 3, totalIssues = 1, totalPRs = 2\<rparr>)
   \<and> ListForUser ''octocat''
       \<in> set (newCalls emptyState (snd (getUserStats sampleWorld ''octocat'' False emptyState)))
   \<and> ListForAuthenticatedUser
       \<notin> set (newCalls emptyState (snd (getUserStats sampleWorld ''octocat'' False emptyState)))
   \<and> fst (getFromCache sampleWorld (langStatsKey ''octocat'' False) emptyState) = None
   \<and> fst (getLanguageStats sampleWorld ''octocat'' False emptyState) =
       Inr (CLanguageStats [(''B'', Num 70), (''A'', Num 30)])
   \<and> ListForUser ''octocat''
       \<in> set (newCalls emptyState (snd (getLanguageStats sampleWorld ''octocat'' False emptyState)))
   \<and> ListForAuthenticatedUser
       \<notin> set (newCalls emptyState (snd (getLanguageStats sampleWorld ''octocat'' False emptyState)))"
  (is "?owner \<and> ?same \<and> ?missU \<and> ?resU \<and> ?pubU \<and> ?noU \<and> ?missL \<and> ?resL \<and> ?pubL \<and> ?noL")
proof -
  have owner: ?owner by (simp add: world_defs)
  have same: ?same by (simp add: run_defs)
  have missU: ?missU by (simp add: world_defs run_defs)
  have resU: ?resU by (simp add: world_defs run_defs)
  have missL: ?missL by (simp add: world_defs run_defs lang_defs)
  have resL: ?resL by (rule sample_languageStats)
  note t = public_flag_uses_public_listing [of emptyState sampleWorld "''octocat''"]
  from t have noU: ?noU and noL: ?noL by blast+
  from t missU resU have pubU: ?pubU by blast
  from t missL resL have pubL: ?pubL by blast
  from owner same missU resU pubU noU missL resL pubL noL show ?thesis by blast
qed

lemma getFromCache_no_entry: "cache s k = None \<Longrightarrow> getFromCache w k s = (None, s)"
  by (simp add: getFromCache_def)

lemma checkAuthenticatedUser_lower:
  "toLowerCase u1 = toLowerCase u2 \<Longrightarrow>
   checkAuthenticatedUser w u1 s = checkAuthenticatedUser w u2 s"
  by (simp add: checkAuthenticatedUser_def Let_def
        split: prod.splits option.splits cached.splits sum.splits)

lemma getLanguageStats_routing:
  assumes "cache s (langStatsKey u ip) = None"
  shows "(ListForAuthenticatedUser \<in> set (newCalls s (snd (getLanguageStats w u ip s)))) =
         (ip \<and> fst (checkAuthenticatedUser w u s) = Inr True)"
proof -
  have g: "getFromCache w (langStatsKey u ip) s = (None, s)"
    using assms by (rule getFromCache_no_entry)
  obtain r1 s2 where a: "checkAuthenticatedUser w u s = (r1, s2)" by force
  obtain ca where ca: "calls s2 = calls s @ ca" "set ca \<subseteq> {GetAuthenticated}"
    using checkAuthenticatedUser_callsD [OF a] by blast
  then have notin: "ListForAuthenticatedUser \<notin> set ca" by auto
  show ?thesis
  proof (cases r1)
    case (Inl e)
    then have "calls (snd (getLanguageStats w u ip s)) = calls s @ ca"
      using g a ca by (simp add: getLanguageStats_def)
    then show ?thesis using notin a Inl by (simp add: newCalls_append)
  next
    case (Inr b)
    obtain r2 s3 where f: "fetchRepos w u ip b s2 = (r2, s3)" by force
    have c3: "calls s3 = calls s @ ca @ [if ip \<and> b then ListForAuthenticatedUser else ListForUser u]"
      using fetchRepos_callsD [OF f] ca by simp
    show ?thesis
    proof (cases r2)
      case (Inl e)
      then have "calls (snd (getLanguageStats w u ip s)) = calls s3"
        using g a Inr f by (simp add: getLanguageStats_def)
      then show ?thesis
        using c3 notin a Inr by (auto simp: newCalls_def)
    next
      case repos: (Inr repos)
      obtain cl where cl: "calls (snd (collectLanguages w repos [] s3)) = calls s3 @ cl"
        "\<forall>c\<in>set cl. \<exists>ow rn. c = ListLanguages ow rn"
        using collectLanguages_calls [of w repos "[]" s3] by blast
      have "calls (snd (getLanguageStats w u ip s)) = calls s3 @ cl"
        using g a Inr f repos cl
        by (auto simp: getLanguageStats_def Let_def split: prod.splits)
      then show ?thesis
        using c3 cl notin a Inr by (auto simp: newCalls_def)
    qed
  qed
qed

lemma getUserStats_routing:
  assumes "cache s (userStatsKey u ip) = None" and "getByUsername w u = Inr p"
  shows "(ListForAuthenticatedUser \<in> set (newCalls s (snd (getUserStats w u ip s)))) =
         (ip \<and> fst (checkAuthenticatedUser w u s) = Inr True)"
proof -
  have g: "getFromCache w (userStatsKey u ip) s = (None, s)"
    using assms(1) by (rule getFromCache_no_entry)
  obtain r1 s2 where a: "checkAuthenticatedUser w u s = (r1, s2)" by force
  obtain ca where ca: "calls s2 = calls s @ ca" "set ca \<subseteq> {GetAuthenticated}"
    using checkAuthenticatedUser_callsD [OF a] by blast
  then have notin: "ListForAuthenticatedUser \<notin> set ca" by auto
  show ?thesis
  proof (cases r1)
    case (Inl e)
    then have "calls (snd (getUserStats w u ip s)) = calls s @ ca"
      using g a ca by (simp add: getUserStats_def)
    then show ?thesis using notin a Inl by (simp add: newCalls_append)
  next
    case (Inr b)
    obtain r2 s4 where f: "fetchRepos w u ip b (request (GetByUsername u) s2) = (r2, s4)" by force
    have c4: "calls s4 = calls s @ ca @ [GetByUsername u,
        if ip \<and> b then ListForAuthenticatedUser else ListForUser u]"
      using fetchRepos_callsD [OF f] ca by simp
    show ?thesis
    proof (cases r2)
      case (Inl e)
      then have "calls (snd (getUserStats w u ip s)) = calls s4"
        using g a Inr f assms(2) by (simp add: getUserStats_def Let_def)
      then show ?thesis
        using c4 notin a Inr by (auto simp: newCalls_def)
    next
      case repos: (Inr repos)
      have "calls (snd (getUserStats w u ip s)) =
          calls s4 @ [SearchCommits (''author:'' @ u), SearchIssues (''author:'' @ u @ '' type:issue'')] @
         (case searchIssues w (''author:'' @ u @ '' type:issue'') of
            Inl e \<Rightarrow> [] | Inr i \<Rightarrow> [SearchIssues (''author:'' @ u @ '' type:pr'')])"
        using g a Inr f repos assms(2)
          fetchIssuesAndPRs_calls [of w u "snd (fetchCommits w u s4)"] fetchCommits_calls [of w u s4]
        by (auto simp: getUserStats_def Let_def split: prod.splits)
      then show ?thesis
        using c4 notin a Inr by (auto simp: newCalls_def split: sum.splits)
    qed
  qed
qed

text \<open>What a run writes to the cache.\<close>

lemma getFromCache_cache [simp]: "cache (snd (getFromCache w k s)) = cache s"
  by (simp add: getFromCache_def Let_def split: option.splits)

lemma getFromCache_cacheD: "getFromCache w k s = (r, s1) \<Longrightarrow> cache s1 = cache s"
  using getFromCache_cache [of w k s] by simp

lemma request_cache [simp]: "cache (request c s) = cache s"
  by (simp add: request_def)

lemma warn_cache [simp]: "cache (warn m s) = cache s"
  by (simp add: warn_def)

lemma setCache_cache:
  "cache (setCache w k v s) k' =
     (if k' = k then Some \<lparr>data = v, timestamp = dateNow w (ticks s)\<rparr> else cache s k')"
  by (simp add: setCache_def)

lemma checkAuthenticatedUser_cacheD:
  "checkAuthenticatedUser w u s = (r, s2) \<Longrightarrow> k \<noteq> ''auth-user'' \<Longrightarrow> cache s2 k = cache s k"
  by (cases "getFromCache w ''auth-user'' s")
     (auto simp: checkAuthenticatedUser_def Let_def setCache_cache
           dest: getFromCache_cacheD split: option.splits cached.splits sum.splits)

lemma fetchRepos_cacheD: "fetchRepos w u ip b s = (r, s') \<Longrightarrow> cache s' = cache s"
  by (auto simp: fetchRepos_def split: if_splits)

lemma fetchCommits_cache [simp]: "cache (snd (fetchCommits w u s)) = cache s"
  by (simp add: fetchCommits_def Let_def split: sum.splits)

lemma fetchIssuesAndPRs_cache [simp]: "cache (snd (fetchIssuesAndPRs w u s)) = cache s"
  by (simp add: fetchIssuesAndPRs_def Let_def split: sum.splits)

lemma collectLanguages_cache [simp]: "cache (snd (collectLanguages w repos ls s)) = cache s"
  by (induction w repos ls s rule: collectLanguages.induct)
     (auto simp: Let_def split: sum.splits)

lemma getUserStats_cache_other:
  assumes "k \<noteq> userStatsKey u ip" and "k \<noteq> ''auth-user''"
  shows "cache (snd (getUserStats w u ip s)) k = cache s k"
proof (cases rule: getUserStats_cases [of w u ip s])
  case (hit c s1)
  then show ?thesis using getFromCache_cacheD [OF hit(1)] by simp
next
  case (type_error s1 e s2)
  then show ?thesis
    using getFromCache_cacheD [OF type_error(1)]
      checkAuthenticatedUser_cacheD [OF type_error(2) assms(2)] by simp
next
  case (no_user s1 b s2 e)
  then show ?thesis
    using getFromCache_cacheD [OF no_user(1)]
      checkAuthenticatedUser_cacheD [OF no_user(2) assms(2)] by simp
next
  case (no_repos s1 b s2 user e s4)
  then show ?thesis
    using getFromCache_cacheD [OF no_repos(1)]
      checkAuthenticatedUser_cacheD [OF no_repos(2) assms(2)]
      fetchRepos_cacheD [OF no_repos(4)] by simp
next
  case (computed s1 b s2 user repos s4)
  then show ?thesis
    using getFromCache_cacheD [OF computed(1)]
      checkAuthenticatedUser_cacheD [OF computed(2) assms(2)]
      fetchRepos_cacheD [OF computed(4)] assms(1)
    by (simp add: setCache_cache)
qed

lemma getLanguageStats_cache_other:
  assumes "k \<noteq> langStatsKey u ip" and "k \<noteq> ''auth-user''"
  shows "cache (snd (getLanguageStats w u ip s)) k = cache s k"
proof (cases rule: getLanguageStats_cases [of w u ip s])
  case (hit c s1)
  then show ?thesis using getFromCache_cacheD [OF hit(1)] by simp
next
  case (type_error s1 e s2)
  then show ?thesis
    using getFromCache_cacheD [OF type_error(1)]
      checkAuthenticatedUser_cacheD [OF type_error(2) assms(2)] by simp
next
  case (no_repos s1 b s2 e s3)
  then show ?thesis
    using getFromCache_cacheD [OF no_repos(1)]
      checkAuthenticatedUser_cacheD [OF no_repos(2) assms(2)]
      fetchRepos_cacheD [OF no_repos(3)] by simp
next
  case (computed s1 b s2 repos s3)
  then show ?thesis
    using getFromCache_cacheD [OF computed(1)]
      checkAuthenticatedUser_cacheD [OF computed(2) assms(2)]
      fetchRepos_cacheD [OF computed(3)] assms(1)
    by (simp add: setCache_cache)
qed

lemma stats_keys_not_auth:
  "userStatsKey u ip \<noteq> ''auth-user''" "langStatsKey u ip \<noteq> ''auth-user''"
  by (simp_all add: userStatsKey_def langStatsKey_def)

text \<open>
  Claim C9. For two usernames that differ but have the same lower-case form: the
  cache keys of the two requests differ, for the user statistics and for the language
  statistics, and a run for one username leaves the entry of the other as it was; the
  identity check gives the same answer and the same state for both (it compares the
  lower-case forms of the token owner's login and of the username); and two runs that
  start without a cache entry for their keys issue the authenticated listing request
  either both or neither.
\<close>

theorem letter_case_of_username:
  assumes lower: "toLowerCase u1 = toLowerCase u2" and diff: "u1 \<noteq> u2"
  shows "userStatsKey u1 ip \<noteq> userStatsKey u2 ip
       \<and> langStatsKey u1 ip \<noteq> langStatsKey u2 ip
       \<and> cache (snd (getUserStats w u1 ip s)) (userStatsKey u2 ip) = cache s (userStatsKey u2 ip)
       \<and> cache (snd (getLanguageStats w u1 ip s)) (langStatsKey u2 ip) = cache s (langStatsKey u2 ip)
       \<and> checkAuthenticatedUser w u1 s = checkAuthenticatedUser w u2 s
       \<and> (\<forall>a. cache s ''auth-user'' = None \<longrightarrow> getAuthenticated w = Inr a \<longrightarrow>
            fst (checkAuthenticatedUser w u1 s) =
              Inr (toLowerCase (auth_login a) = toLowerCase u1))
       \<and> (cache s (userStatsKey u1 ip) = None \<longrightarrow> cache s (userStatsKey u2 ip) = None \<longrightarrow>
          (\<exists>p. getByUsername w u1 = Inr p) \<longrightarrow> (\<exists>p. getByUsername w u2 = Inr p) \<longrightarrow>
            (ListForAuthenticatedUser \<in> set (newCalls s (snd (getUserStats w u1 ip s)))) =
            (ListForAuthenticatedUser \<in> set (newCalls s (snd (getUserStats w u2 ip s)))))
       \<and> (cache s (langStatsKey u1 ip) = None \<longrightarrow> cache s (langStatsKey u2 ip) = None \<longrightarrow>
            (ListForAuthenticatedUser \<in> set (newCalls s (snd (getLanguageStats w u1 ip s)))) =
            (ListForAuthenticatedUser \<in> set (newCalls s (snd (getLanguageStats w u2 ip s)))))"
proof -
  have k1: "userStatsKey u1 ip \<noteq> userStatsKey u2 ip"
    using diff by (simp add: userStatsKey_def)
  have k2: "langStatsKey u1 ip \<noteq> langStatsKey u2 ip"
    using diff by (simp add: langStatsKey_def)
  have a: "checkAuthenticatedUser w u1 s = checkAuthenticatedUser w u2 s"
    using lower by (rule checkAuthenticatedUser_lower)
  have c: "\<forall>a. cache s ''auth-user'' = None \<longrightarrow> getAuthenticated w = Inr a \<longrightarrow>
            fst (checkAuthenticatedUser w u1 s) =
              Inr (toLowerCase (auth_login a) = toLowerCase u1)"
    by (simp add: checkAuthenticatedUser_def getFromCache_no_entry)
  have e1: "cache (snd (getUserStats w u1 ip s)) (userStatsKey u2 ip) = cache s (userStatsKey u2 ip)"
    using k1 by (intro getUserStats_cache_other stats_keys_not_auth) simp
  have e2: "cache (snd (getLanguageStats w u1 ip s)) (langStatsKey u2 ip) = cache s (langStatsKey u2 ip)"
    using k2 by (intro getLanguageStats_cache_other stats_keys_not_auth) simp
  show ?thesis
    using k1 k2 a c e1 e2
    by (auto simp: getUserStats_routing getLanguageStats_routing)
qed

theorem letter_case_of_username_witness:
  "toLowerCase ''Octocat'' = toLowerCase ''octocat''
   \<and> ''Octocat'' \<noteq> ''octocat''
   \<and> userStatsKey ''Octocat'' True \<noteq> userStatsKey ''octocat'' True
   \<and> langStatsKey ''Octocat'' True \<noteq> langStatsKey ''octocat'' True
   \<and> cache emptyState (langStatsKey ''Octocat'' True) = None
   \<and> cache emptyState (langStatsKey ''octocat'' True) = None
   \<and> ListForAuthenticatedUser
       \<in> set (newCalls emptyState (snd (getLanguageStats sampleWorld ''octocat'' True emptyState)))
   \<and> ListForAuthenticatedUser
       \<in> set (newCalls emptyState (snd (getLanguageStats sampleWorld ''Octocat'' True emptyState)))"
  (is "?lower \<and> ?diff \<and> ?keyU \<and> ?keyL \<and> ?none1 \<and> ?none2 \<and> ?route2 \<and> ?route1")
proof -
  have lower: ?lower by (simp add: run_defs)
  have diff: ?diff by simp
  have none1: ?none1 and none2: ?none2 by (simp_all add: emptyState_def)
  have route2: ?route2 by (simp add: world_defs run_defs lang_defs)
  note t = letter_case_of_username [OF lower diff, of True sampleWorld emptyState]
  from t have keyU: ?keyU and keyL: ?keyL by blast+
  from t none1 none2 route2 have route1: ?route1 by blast
  from lower diff keyU keyL none1 none2 route2 route1 show ?thesis by blast
qed

subsection \<open>The request handler\<close>

text \<open>
  Claim C10. \<open>includePrivate\<close> is true exactly when the first \<open>private\<close>
  parameter is the string \<open>true\<close>: an absent parameter, \<open>TRUE\<close>, \<open>1\<close>,
  \<open>yes\<close> and the empty string all give false. An absent or empty \<open>username\<close>
  parameter gives \<open>elyor04\<close>, any other value is taken as it is. On each of the four
  routes the aggregator is run with exactly these two values.
\<close>

theorem handler_query_parameters:
  "requestIncludePrivate req = (map_of (req_searchParams req) ''private'' = Some ''true'')
   \<and> (map_of (req_searchParams req) ''private''
         \<in> {None, Some ''TRUE'', Some ''1'', Some ''yes'', Some ''''} \<longrightarrow>
        \<not> requestIncludePrivate req)
   \<and> (map_of (req_searchParams req) ''username'' \<in> {None, Some ''''} \<longrightarrow>
        requestUsername req = ''elyor04'')
   \<and> (\<forall>u. map_of (req_searchParams req) ''username'' = Some u \<longrightarrow> u \<noteq> '''' \<longrightarrow>
        requestUsername req = u)
   \<and> (req_method req \<noteq> ''OPTIONS'' \<longrightarrow>
        (req_pathname req = ''/stats'' \<longrightarrow>
           handler w req s = respond ''image/svg+xml'' StatsSVG
             (getUserStats w (requestUsername req) (requestIncludePrivate req) s))
        \<and> (req_pathname req = ''/languages'' \<longrightarrow>
           handler w req s = respond ''image/svg+xml'' LanguagesSVG
             (getLanguageStats w (requestUsername req) (requestIncludePrivate req) s))
        \<and> (req_pathname req = ''/api/stats'' \<longrightarrow>
           handler w req s = respond ''application/json'' StatsJSON
             (getUserStats w (requestUsername req) (requestIncludePrivate req) s))
        \<and> (req_pathname req = ''/api/languages'' \<longrightarrow>
           handler w req s = respond ''application/json'' LanguagesJSON
             (getLanguageStats w (requestUsername req) (requestIncludePrivate req) s)))"
  by (auto simp: requestIncludePrivate_def requestUsername_def searchParams_get_def js_or_def
        handler_def Let_def)

theorem handler_query_parameters_witness:
  "map_of (req_searchParams sampleRequest) ''private''
     \<in> {None, Some ''TRUE'', Some ''1'', Some ''yes'', Some ''''}
   \<and> map_of (req_searchParams sampleRequest) ''username'' \<in> {None, Some ''''}
   \<and> req_method sampleRequest \<noteq> ''OPTIONS''
   \<and> req_pathname sampleRequest = ''/api/stats''
   \<and> \<not> requestIncludePrivate sampleRequest
   \<and> requestUsername sampleRequest = ''elyor04''
   \<and> handler sampleWorld sampleRequest emptyState =
       respond ''application/json'' StatsJSON (getUserStats sampleWorld ''elyor04'' False emptyState)
   \<and> map_of (req_searchParams (sampleRequest\<lparr>req_searchParams := [(''private'', ''true'')]\<rparr>))
         ''private'' = Some ''true''
   \<and> requestIncludePrivate (sampleRequest\<lparr>req_searchParams := [(''private'', ''true'')]\<rparr>)"
  (is "?flag \<and> ?user \<and> ?meth \<and> ?path \<and> ?pub \<and> ?dflt \<and> ?handled \<and> ?flag' \<and> ?priv")
proof -
  have flag: ?flag and user: ?user and meth: ?meth and path: ?path and flag': ?flag'
    by (simp_all add: sampleRequest_def)
  note t = handler_query_parameters [of sampleRequest sampleWorld emptyState]
  from t flag have pub: ?pub by blast
  from t user have dflt: ?dflt by blast
  from t meth path have "handler sampleWorld sampleRequest emptyState =
       respond ''application/json'' StatsJSON
         (getUserStats sampleWorld (requestUsername sampleRequest)
            (requestIncludePrivate sampleRequest) emptyState)"
    by blast
  with pub dflt have handled: ?handled by simp
  from handler_query_parameters
         [of "sampleRequest\<lparr>req_searchParams := [(''private'', ''true'')]\<rparr>" sampleWorld emptyState]
       flag'
  have priv: ?priv by blast
  from flag user meth path pub dflt handled flag' priv show ?thesis by blast
qed

subsection \<open>Language percentages\<close>



lemma keys_obj_set: "fst ` set (obj_set k v obj) = insert k (fst ` set obj)"
proof -
  have "set (takeWhile P obj) \<union> set (dropWhile P obj) = set obj" for P
    by (metis set_append takeWhile_dropWhile_id)
  then have "fst ` set (takeWhile P obj) \<union> fst ` set (dropWhile P obj) = fst ` set obj" for P
    by (metis image_Un)
  then show ?thesis
    by (auto simp: obj_set_def update_keys image_Un insert_absorb simp flip: set_map)
qed






lemma length_sort_insert: "length (sort_insert cmp x ys) = Suc (length ys)"
  by (induction ys) auto


lemma length_js_sort: "length (js_sort cmp xs) = length xs"
  by (induction xs) (auto simp: js_sort_def length_sort_insert)











lemma collectLanguages_nothing:
  "\<forall>r\<in>set repos. repo_fork r
      \<or> (\<exists>e. listLanguages w (repo_owner_login r) (repo_name r) = Inl e)
      \<or> listLanguages w (repo_owner_login r) (repo_name r) = Inr [] \<Longrightarrow>
   fst (collectLanguages w repos ls s) = ls"
  by (induction w repos ls s rule: collectLanguages.induct) (auto simp: Let_def split: sum.splits)

lemma getLanguageStats_returns:
  assumes miss: "fst (getFromCache w (langStatsKey u ip) s) = None"
    and auth: "fst (checkAuthenticatedUser w u (snd (getFromCache w (langStatsKey u ip) s))) = Inr b"
    and listed: "(if ip \<and> b then listForAuthenticatedUser w else listForUser w u) = Inr repos"
  shows "\<exists>s3. fst (getLanguageStats w u ip s) =
           Inr (CLanguageStats (languagePercentages (fst (collectLanguages w repos [] s3))))"
proof -
  obtain s1 where g: "getFromCache w (langStatsKey u ip) s = (None, s1)"
    using miss by (metis prod.collapse)
  obtain s2 where a: "checkAuthenticatedUser w u s1 = (Inr b, s2)"
    using auth g by (metis prod.collapse snd_conv)
  define s3 where "s3 = snd (fetchRepos w u ip b s2)"
  have f: "fetchRepos w u ip b s2 = (Inr repos, s3)"
    unfolding s3_def using listed by (auto simp: fetchRepos_def split: if_splits)
  have "fst (getLanguageStats w u ip s) =
           Inr (CLanguageStats (languagePercentages (fst (collectLanguages w repos [] s3))))"
    using g a f by (simp add: getLanguageStats_def Let_def split: prod.splits)
  then show ?thesis by blast
qed

text \<open>
  Claim C3, as the code has it. When the cache misses, the identity check does not
  throw and the repository list is fetched, and every repository of the list is a
  fork, or its language request fails, or its language request answers no language,
  then \<open>getLanguageStats\<close> returns the empty mapping: the accumulated byte mapping
  is empty and no division is made.
\<close>

theorem empty_accumulation_gives_empty_stats:
  assumes miss: "fst (getFromCache w (langStatsKey u ip) s) = None"
    and auth: "fst (checkAuthenticatedUser w u (snd (getFromCache w (langStatsKey u ip) s))) = Inr b"
    and listed: "(if ip \<and> b then listForAuthenticatedUser w else listForUser w u) = Inr repos"
    and skipped: "\<forall>r\<in>set repos. repo_fork r
          \<or> (\<exists>e. listLanguages w (repo_owner_login r) (repo_name r) = Inl e)
          \<or> listLanguages w (repo_owner_login r) (repo_name r) = Inr []"
  shows "fst (getLanguageStats w u ip s) = Inr (CLanguageStats [])
       \<and> languagePercentages [] = []"
proof -
  obtain s3 where r: "fst (getLanguageStats w u ip s) =
           Inr (CLanguageStats (languagePercentages (fst (collectLanguages w repos [] s3))))"
    using getLanguageStats_returns [OF miss auth listed] by blast
  have "fst (collectLanguages w repos [] s3) = []"
    using skipped by (rule collectLanguages_nothing)
  moreover have "languagePercentages [] = []"
    by (simp add: languagePercentages_def totalBytes_def js_sort_def fromEntries_def)
  ultimately show ?thesis using r by simp
qed

theorem empty_accumulation_gives_empty_stats_witness:
  "fst (getFromCache languagesDownWorld (langStatsKey ''octocat'' False) emptyState) = None
   \<and> fst (checkAuthenticatedUser languagesDownWorld ''octocat''
            (snd (getFromCache languagesDownWorld (langStatsKey ''octocat'' False) emptyState)))
       = Inr True
   \<and> (if False \<and> True then listForAuthenticatedUser languagesDownWorld
        else listForUser languagesDownWorld ''octocat'') = Inr sampleRepos
   \<and> listLanguages languagesDownWorld ''octocat'' ''hello'' = Inl (RequestError ''Not Found'')
   \<and> fst (getLanguageStats languagesDownWorld ''octocat'' False emptyState) = Inr (CLanguageStats [])"
  (is "?miss \<and> ?auth \<and> ?listed \<and> ?failed \<and> ?res")
proof -
  have miss: ?miss by (simp add: world_defs run_defs lang_defs)
  have auth: ?auth by (simp add: world_defs run_defs lang_defs)
  have listed: ?listed and failed: ?failed by (simp_all add: world_defs)
  have skipped: "\<forall>r\<in>set sampleRepos. repo_fork r
          \<or> (\<exists>e. listLanguages languagesDownWorld (repo_owner_login r) (repo_name r) = Inl e)
          \<or> listLanguages languagesDownWorld (repo_owner_login r) (repo_name r) = Inr []"
    by (simp add: world_defs)
  from empty_accumulation_gives_empty_stats [OF miss auth listed skipped] have res: ?res by blast
  from miss auth listed failed res show ?thesis by blast
qed

text \<open>
  Claim C3 as the specification words it, for every mapping whose grand total is
  zero, fails on a non-empty one: a repository that reports one language of zero bytes
  gives the total 0 and the entry NaN.
\<close>

theorem zero_byte_languages_counterexample:
  "fst (collectLanguages zeroBytesWorld sampleRepos [] emptyState) = [(''A'', 0)]
   \<and> totalBytes [(''A'', 0)] = 0
   \<and> fst (getLanguageStats zeroBytesWorld ''octocat'' False emptyState) =
       Inr (CLanguageStats [(''A'', NaN)])"
  by (simp add: world_defs run_defs lang_defs)




end
